theory Spec2Isabelle
  imports Main "HOL-Library.Word" "HOL-Library.FSet"
begin

section \<open>Status values\<close>

text \<open>
  \<^verbatim>\<open>Status\<close> as \<^verbatim>\<open>olap_scan_prepare.cpp\<close> uses it: \<^verbatim>\<open>Status::OK()\<close>,
  \<^verbatim>\<open>Status::EndOfFile(msg)\<close> (the explicit "no rows" signal) and
  \<^verbatim>\<open>Status::RuntimeError(msg)\<close>.
\<close>

datatype Status = OK | EndOfFile string | RuntimeError string

definition ok :: "Status \<Rightarrow> bool" where
  "ok s = (s = OK)"

definition is_end_of_file :: "Status \<Rightarrow> bool" where
  "is_end_of_file s = (case s of EndOfFile _ \<Rightarrow> True | _ \<Rightarrow> False)"

section \<open>The normalized-flag array and the residual list\<close>

text \<open>
  \<^verbatim>\<open>ChunkPredicateBuilder::is_pred_normalized(size_t index)\<close>:
  \<^verbatim>\<open>return index < _normalized_exprs.size() && _normalized_exprs[index];\<close>
  The flag array is read only under the bounds test.
\<close>

definition is_pred_normalized :: "bool list \<Rightarrow> nat \<Rightarrow> bool" where
  "is_pred_normalized normalized_exprs index =
     (index < length normalized_exprs \<and> normalized_exprs ! index)"

text \<open>
  \<^verbatim>\<open>OlapScanConjunctsManager::get_not_push_down_conjuncts\<close>: the loop over
  \<^verbatim>\<open>i = 0 .. conjunct_ctxs.size() - 1\<close>, pushing \<^verbatim>\<open>conjunct_ctxs.at(i)\<close> onto
  \<^verbatim>\<open>predicates\<close> when the root builder does not report index \<^verbatim>\<open>i\<close> normalized.
  \<^verbatim>\<open>not_push_down_from i\<close> is the loop started at index \<^verbatim>\<open>i\<close>.
\<close>

function not_push_down_from ::
  "nat \<Rightarrow> bool list \<Rightarrow> 'c list \<Rightarrow> 'c list \<Rightarrow> 'c list" where
  "not_push_down_from i normalized_exprs conjunct_ctxs predicates =
     (if i < length conjunct_ctxs
      then not_push_down_from (Suc i) normalized_exprs conjunct_ctxs
             (if \<not> is_pred_normalized normalized_exprs i
              then predicates @ [conjunct_ctxs ! i] else predicates)
      else predicates)"
  by pat_completeness auto
termination
  by (relation "measure (\<lambda>(i, ns, cs, ps). length cs - i)") auto

declare not_push_down_from.simps [simp del]

definition get_not_push_down_conjuncts ::
  "bool list \<Rightarrow> 'c list \<Rightarrow> 'c list \<Rightarrow> 'c list" where
  "get_not_push_down_conjuncts normalized_exprs conjunct_ctxs predicates =
     not_push_down_from 0 normalized_exprs conjunct_ctxs predicates"

section \<open>Key ranges\<close>

text \<open>
  \<^verbatim>\<open>OlapScanRange\<close>: the default-constructed range is the unbounded full scan. Its
  fields are declared outside these sources; the model keeps the begin and end keys with
  their inclusion flags, both keys empty for the default range.
\<close>

record OlapScanRange =
  begin_include :: bool
  end_include :: bool
  begin_scan_range :: "string list"
  end_scan_range :: "string list"

definition default_OlapScanRange :: OlapScanRange where
  "default_OlapScanRange =
     \<lparr>begin_include = True, end_include = True, begin_scan_range = [], end_scan_range = []\<rparr>"

text \<open>
  \<^verbatim>\<open>ChunkPredicateBuilder::get_key_ranges\<close>. \<^verbatim>\<open>OlapScanKeys::get_key_range\<close> is
  declared outside these sources, so it is the parameter \<open>get_key_range\<close>: from the scan
  keys and the caller's vector it gives a status and the vector as it leaves it.
  \<^verbatim>\<open>RETURN_IF_ERROR\<close> returns its status when it is not OK; otherwise an empty vector gets
  one default range.
\<close>

definition get_key_ranges ::
  "('k \<Rightarrow> OlapScanRange list \<Rightarrow> Status \<times> OlapScanRange list) \<Rightarrow> 'k \<Rightarrow>
     OlapScanRange list \<Rightarrow> Status \<times> OlapScanRange list" where
  "get_key_ranges get_key_range scan_keys key_ranges =
     (case get_key_range scan_keys key_ranges of
        (st, key_ranges1) \<Rightarrow>
          if \<not> ok st then (st, key_ranges1)
          else if key_ranges1 = [] then (OK, key_ranges1 @ [default_OlapScanRange])
          else (OK, key_ranges1))"

section \<open>The chunk buffer limiter\<close>

text \<open>
  \<^verbatim>\<open>DynamicChunkBufferLimiter\<close> (\<^verbatim>\<open>chunk_buffer_limiter.cpp\<close>). The class declaration is
  outside these sources; the code reads the counter into an \<^verbatim>\<open>int\<close> and compares with a
  \<^verbatim>\<open>size_t\<close>, so \<^verbatim>\<open>_pinned_chunks_counter\<close> is a 32-bit word read as signed and
  \<^verbatim>\<open>_capacity\<close> a 64-bit unsigned word. The conversion of an \<^verbatim>\<open>int\<close> to \<^verbatim>\<open>size_t\<close> is
  sign extension (\<open>scast\<close>); \<^verbatim>\<open>fetch_add\<close> and \<^verbatim>\<open>fetch_sub\<close> wrap and return the old value.
\<close>

record DynamicChunkBufferLimiter =
  pinned_chunks_counter :: "32 word"
  capacity :: "64 word"

record Token =
  num_tokens :: "32 word"

text \<open>
  \<^verbatim>\<open>_unpin(int num_chunks)\<close>: \<^verbatim>\<open>int prev_value = counter.fetch_sub(num_chunks);
  DCHECK_GE(prev_value, 1);\<close> The result is the new limiter and whether the assertion
  holds.
\<close>

definition unpin :: "32 word \<Rightarrow> DynamicChunkBufferLimiter \<Rightarrow> DynamicChunkBufferLimiter \<times> bool" where
  "unpin num_chunks l =
     (let prev_value = pinned_chunks_counter l
      in (l\<lparr>pinned_chunks_counter := prev_value - num_chunks\<rparr>, 1 \<le> sint prev_value))"

text \<open>
  \<^verbatim>\<open>pin(int num_chunks)\<close>: the tentative \<^verbatim>\<open>fetch_add\<close>, the comparison in \<^verbatim>\<open>size_t\<close>, and
  on failure \<^verbatim>\<open>_unpin\<close> and \<^verbatim>\<open>nullptr\<close> (\<open>None\<close>). The third component is whether every
  assertion met on the way holds.
\<close>

definition pin ::
  "32 word \<Rightarrow> DynamicChunkBufferLimiter \<Rightarrow> Token option \<times> DynamicChunkBufferLimiter \<times> bool" where
  "pin num_chunks l =
     (let prev = pinned_chunks_counter l;
          l1 = l\<lparr>pinned_chunks_counter := prev + num_chunks\<rparr>;
          prev_value = (scast prev :: 64 word)
      in if prev_value + scast num_chunks > capacity l
         then (case unpin num_chunks l1 of (l2, checked) \<Rightarrow> (None, l2, checked))
         else (Some \<lparr>num_tokens = num_chunks\<rparr>, l1, True))"

text \<open>
  The states the limiter reaches in use: from a counter of zero, by \<^verbatim>\<open>pin\<close> of a
  non-negative count (a granted token is held), by the release of a held token through
  \<^verbatim>\<open>_unpin\<close> with the token's count, and by a change of \<^verbatim>\<open>_capacity\<close>
  (\<^verbatim>\<open>update_avg_row_bytes\<close> stores a new one) below \<open>2 ^ 31\<close>.
\<close>

inductive limiter_run :: "DynamicChunkBufferLimiter \<Rightarrow> Token list \<Rightarrow> bool" where
  run_init: "pinned_chunks_counter l = 0 \<Longrightarrow> uint (capacity l) < 2 ^ 31 \<Longrightarrow> limiter_run l []"
| run_pin: "limiter_run l held \<Longrightarrow> 0 \<le> sint n \<Longrightarrow> pin n l = (r, l', c) \<Longrightarrow>
      limiter_run l' (case r of None \<Rightarrow> held | Some t \<Rightarrow> t # held)"
| run_release: "limiter_run l held \<Longrightarrow> t \<in> set held \<Longrightarrow> unpin (num_tokens t) l = (l', c) \<Longrightarrow>
      limiter_run l' (remove1 t held)"
| run_capacity: "limiter_run l held \<Longrightarrow> uint cap < 2 ^ 31 \<Longrightarrow>
      limiter_run (l\<lparr>capacity := cap\<rparr>) held"

section \<open>Types, values and expressions\<close>

text \<open>
  The logical types the prepare step distinguishes. \<^verbatim>\<open>TypeDescriptor\<close> carries the type
  tag and, for decimals, the declared precision and scale.
\<close>

datatype LogicalType =
  TYPE_BOOLEAN | TYPE_TINYINT | TYPE_INT | TYPE_BIGINT | TYPE_DOUBLE
  | TYPE_CHAR | TYPE_VARCHAR | TYPE_DATE | TYPE_DATETIME
  | TYPE_DECIMALV2 | TYPE_DECIMAL32 | TYPE_DECIMAL64 | TYPE_DECIMAL128 | TYPE_JSON

record TypeDescriptor =
  type :: LogicalType
  precision :: int
  scale :: int

text \<open>
  Modelled from the spec: \<^verbatim>\<open>TypeDescriptor::is_date_type\<close>, \<^verbatim>\<open>is_string_type\<close> and
  \<^verbatim>\<open>is_decimalv3_type\<close> are declared outside these sources. The spec's two safe casts
  are "date-typed slot vs date-typed operand" and "string-typed slot vs string-typed
  operand"; the date types are DATE and DATETIME, the string types CHAR and VARCHAR, the
  decimal-v3 types the three fixed-width decimals.
\<close>

definition is_date_type :: "TypeDescriptor \<Rightarrow> bool" where
  "is_date_type t = (type t = TYPE_DATE \<or> type t = TYPE_DATETIME)"

definition is_string_type :: "TypeDescriptor \<Rightarrow> bool" where
  "is_string_type t = (type t = TYPE_CHAR \<or> type t = TYPE_VARCHAR)"

definition is_decimalv3_type :: "TypeDescriptor \<Rightarrow> bool" where
  "is_decimalv3_type t =
     (type t = TYPE_DECIMAL32 \<or> type t = TYPE_DECIMAL64 \<or> type t = TYPE_DECIMAL128)"

record SlotDescriptor =
  slot_id :: int
  slot_type :: TypeDescriptor
  col_name :: string

text \<open>
  \<^verbatim>\<open>DateValue\<close> (\<^verbatim>\<open>date_value.h\<close>) is a Julian day number, compared by that number.
\<close>

record DateValue =
  julian :: int

text \<open>
  Modelled from the spec: \<^verbatim>\<open>TimestampValue\<close> and the two \<^verbatim>\<open>implicit_cast\<close>
  conversions are declared outside these sources. A timestamp is a date with a time of
  day (here in microseconds); "the constant is truncated to a date", and the truncation
  is lossy when "the timestamp carries a nonzero time component": the date cast back is
  the timestamp at midnight.
\<close>

record TimestampValue =
  ts_julian :: int
  ts_time :: nat

definition implicit_cast_DateValue :: "TimestampValue \<Rightarrow> DateValue" where
  "implicit_cast_DateValue ts = \<lparr>julian = ts_julian ts\<rparr>"

definition implicit_cast_TimestampValue :: "DateValue \<Rightarrow> TimestampValue" where
  "implicit_cast_TimestampValue d = \<lparr>ts_julian = julian d, ts_time = 0\<rparr>"

text \<open>
  The cell of a one-row column, and the column that evaluating a constant expression
  returns: its null tests, whether it is a \<^verbatim>\<open>NullableColumn\<close> or a \<^verbatim>\<open>ConstColumn\<close>, and
  the cell of its data column. The cell of a fixed-length numeric column is
  \<open>NumericDatum n x\<close>: \<open>n\<close> bytes of raw data that hold the integer \<open>x\<close> in two's
  complement, least significant byte first.
\<close>

datatype Datum =
  TimestampDatum TimestampValue | DateDatum DateValue | NumericDatum nat int
  | SliceDatum string

record Column =
  only_null :: bool
  is_null_0 :: bool
  column_is_nullable :: bool
  column_is_constant :: bool
  data_column :: Datum

datatype TExprNodeType =
  BINARY_PRED | IN_PRED | FUNCTION_CALL | COMPOUND_PRED | SLOT_REF | CAST_EXPR
  | DICT_EXPR | LITERAL

datatype TExprOpcode =
  LT | LE | GT | GE | EQ | NE | EQ_FOR_NULL | CAST
  | COMPOUND_AND | COMPOUND_OR | COMPOUND_NOT
  | TExprOpcode_FILTER_IN | TExprOpcode_FILTER_NOT_IN | INVALID_OPCODE

datatype SQLFilterOp =
  FILTER_LARGER | FILTER_LARGER_OR_EQUAL | FILTER_LESS | FILTER_LESS_OR_EQUAL
  | FILTER_IN | FILTER_NOT_IN

text \<open>
  An expression node. The \<^verbatim>\<open>Expr\<close> class is declared outside these sources, so a node
  carries what the prepare step asks of it: \<^verbatim>\<open>node_type()\<close>, \<^verbatim>\<open>op()\<close>, \<^verbatim>\<open>type()\<close>,
  \<^verbatim>\<open>is_slotref()\<close>, \<^verbatim>\<open>is_constant()\<close>, the slot ids \<^verbatim>\<open>get_slot_ids\<close> appends (it
  returns their number), the column that evaluating the node gives (\<open>None\<close> for the
  \<^verbatim>\<open>nullptr\<close> of \<^verbatim>\<open>EVALUATE_NULL_IF_ERROR\<close>), the accessors of
  \<^verbatim>\<open>VectorizedInConstPredicate\<close> (\<^verbatim>\<open>is_join_runtime_filter\<close>, \<^verbatim>\<open>is_not_in\<close>,
  \<^verbatim>\<open>null_in_set\<close>, \<^verbatim>\<open>hash_set\<close>), the string \<^verbatim>\<open>is_null_scalar_function\<close> yields when it
  holds, and the status of preparing and opening a context for the node.
\<close>

record ExprNode =
  node_type :: TExprNodeType
  op :: TExprOpcode
  expr_type :: TypeDescriptor
  is_slotref :: bool
  is_constant :: bool
  slot_ids :: "int list"
  evaluate :: "Column option"
  is_join_runtime_filter :: bool
  is_not_in :: bool
  null_in_set :: bool
  hash_set :: "Datum fset"
  is_null_scalar_function :: "string option"
  context_status :: Status

datatype Expr = Expr (node: ExprNode) (children: "Expr list")

text \<open>
  \<^verbatim>\<open>get_child(i)\<close>; an index past the children is outside the source's defined
  behaviour and is \<open>None\<close>.
\<close>

definition get_child :: "Expr \<Rightarrow> nat \<Rightarrow> Expr option" where
  "get_child e i = (if i < length (children e) then Some (children e ! i) else None)"

text \<open>\<^verbatim>\<open>ignore_cast(slot, expr)\<close>.\<close>

definition ignore_cast :: "SlotDescriptor \<Rightarrow> Expr \<Rightarrow> bool" where
  "ignore_cast slot expr =
     (if is_date_type (slot_type slot) \<and> is_date_type (expr_type (node expr)) then True
      else is_string_type (slot_type slot) \<and> is_string_type (expr_type (node expr)))"

text \<open>
  Modelled from the spec: \<^verbatim>\<open>to_olap_filter_type(opcode, opposite)\<close> is declared outside
  these sources. The comparison opcodes give the filter operator of the same sense, and
  of the reversed sense when the operands were swapped ("swapping and reversing the
  operator when needed"); equality is the IN-style operator and inequality the
  NOT-IN-style one (section 4.1, steps 1 to 3), which is how the code tests for them; any
  other opcode falls to the final \<^verbatim>\<open>FILTER_IN\<close>.
\<close>

definition to_olap_filter_type :: "TExprOpcode \<Rightarrow> bool \<Rightarrow> SQLFilterOp" where
  "to_olap_filter_type t opposite =
     (case t of
        LT \<Rightarrow> if opposite then FILTER_LARGER else FILTER_LESS
      | LE \<Rightarrow> if opposite then FILTER_LARGER_OR_EQUAL else FILTER_LESS_OR_EQUAL
      | GT \<Rightarrow> if opposite then FILTER_LESS else FILTER_LARGER
      | GE \<Rightarrow> if opposite then FILTER_LESS_OR_EQUAL else FILTER_LARGER_OR_EQUAL
      | EQ \<Rightarrow> if opposite then FILTER_NOT_IN else FILTER_IN
      | NE \<Rightarrow> if opposite then FILTER_IN else FILTER_NOT_IN
      | _ \<Rightarrow> FILTER_IN)"

section \<open>Extracting the constant of a binary predicate\<close>

text \<open>
  The template parameter \<^verbatim>\<open>ValueType\<close> of \<^verbatim>\<open>get_predicate_value\<close>: \<^verbatim>\<open>DateValue\<close>,
  \<^verbatim>\<open>Slice\<close>, a fixed-width type for which \<^verbatim>\<open>is_decimal<ValueType>\<close> holds, or any other
  fixed-width type; the last two with \<^verbatim>\<open>sizeof(ValueType)\<close> in bytes.
\<close>

datatype ValueType = VT_DateValue | VT_Slice | VT_Decimal nat | VT_Other nat

definition is_decimal :: "ValueType \<Rightarrow> bool" where
  "is_decimal vt = (case vt of VT_Decimal w \<Rightarrow> True | _ \<Rightarrow> False)"

text \<open>
  \<^verbatim>\<open>check_decimal_overflow<ValueType>(precision, value)\<close>. \<^verbatim>\<open>get_scale_factor\<close> is
  declared outside these sources and is a parameter: the function
  \<^verbatim>\<open>get_scale_factor<ValueType>\<close> of the call's \<^verbatim>\<open>ValueType\<close>.
\<close>

definition check_decimal_overflow :: "(int \<Rightarrow> int) \<Rightarrow> ValueType \<Rightarrow> int \<Rightarrow> int \<Rightarrow> bool" where
  "check_decimal_overflow get_scale_factor vt p v =
     (if is_decimal vt then - get_scale_factor p < v \<and> v < get_scale_factor p else False)"

text \<open>
  \<^verbatim>\<open>*reinterpret_cast<const ValueType*>(data->raw_data())\<close> for a \<^verbatim>\<open>ValueType\<close> of \<open>w\<close>
  bytes: the first \<open>w\<close> bytes of the cell, read as a signed integer of \<open>8 * w\<close> bits.
  \<open>wrap_signed w x\<close> is the integer that the low \<open>w\<close> bytes of \<open>x\<close> hold, so a cell wider
  than \<^verbatim>\<open>ValueType\<close> is cut to its low bytes; a cell narrower than \<^verbatim>\<open>ValueType\<close> would be
  read past its end, and a cell that is not of a fixed-length numeric column is not read by
  these types: both are \<open>None\<close>.
\<close>

definition wrap_signed :: "nat \<Rightarrow> int \<Rightarrow> int" where
  "wrap_signed w x = (x + 2 ^ (8 * w - 1)) mod 2 ^ (8 * w) - 2 ^ (8 * w - 1)"

definition reinterpret_value :: "nat \<Rightarrow> Datum \<Rightarrow> int option" where
  "reinterpret_value w data =
     (case data of
        NumericDatum n x \<Rightarrow> if 0 < w \<and> w \<le> n then Some (wrap_signed w x) else None
      | _ \<Rightarrow> None)"

text \<open>
  What a call of \<^verbatim>\<open>get_predicate_value\<close> leaves: the boolean it returns, the
  out-parameters \<^verbatim>\<open>*value\<close> and \<^verbatim>\<open>*op\<close> (\<open>None\<close> while the call has not written them)
  and \<^verbatim>\<open>*status\<close>.
\<close>

record PredicateValue =
  returned :: bool
  out_value :: "Datum option"
  out_op :: "SQLFilterOp option"
  status :: Status

text \<open>
  The rewrite of lines 130 to 157, for a timestamp cell under \<^verbatim>\<open>ValueType = DateValue\<close>:
  \<^verbatim>\<open>*value\<close> is the truncated date, and when the date cast back differs from the
  timestamp the \<^verbatim>\<open>switch (*op)\<close> runs.
\<close>

definition date_from_timestamp :: "TimestampValue \<Rightarrow> SQLFilterOp \<Rightarrow> Status \<Rightarrow> PredicateValue" where
  "date_from_timestamp ts op0 st =
     (let v = implicit_cast_DateValue ts;
          keep = \<lparr>returned = True, out_value = Some (DateDatum v), out_op = Some op0, status = st\<rparr>
      in if implicit_cast_TimestampValue v \<noteq> ts
         then (case op0 of
                 FILTER_LARGER_OR_EQUAL \<Rightarrow> keep\<lparr>out_op := Some FILTER_LARGER\<rparr>
               | FILTER_LESS \<Rightarrow> keep\<lparr>out_op := Some FILTER_LESS_OR_EQUAL\<rparr>
               | FILTER_LARGER \<Rightarrow> keep
               | FILTER_LESS_OR_EQUAL \<Rightarrow> keep
               | FILTER_IN \<Rightarrow>
                   keep\<lparr>returned := False,
                        status := EndOfFile ''predicate for date always false''\<rparr>
               | FILTER_NOT_IN \<Rightarrow> keep\<lparr>returned := False\<rparr>)
         else keep)"

text \<open>
  Lines 170 to 173, for a \<^verbatim>\<open>ValueType\<close> of \<open>w\<close> bytes that is neither \<^verbatim>\<open>DateValue\<close> nor
  \<^verbatim>\<open>Slice\<close>: \<^verbatim>\<open>*value\<close> is the cell read at that width, and when the type of \<^verbatim>\<open>r\<close> is a
  decimal-v3 type the call returns what \<^verbatim>\<open>check_decimal_overflow\<close> says of
  \<^verbatim>\<open>r->type().precision\<close> and that value.
\<close>

definition fixed_width_value ::
  "(int \<Rightarrow> int) \<Rightarrow> ValueType \<Rightarrow> nat \<Rightarrow> Expr \<Rightarrow> Datum \<Rightarrow> SQLFilterOp \<Rightarrow> Status \<Rightarrow>
     PredicateValue option" where
  "fixed_width_value get_scale_factor vt w r data op0 st =
     (case reinterpret_value w data of
        None \<Rightarrow> None
      | Some v \<Rightarrow>
          let done = \<lparr>returned = True, out_value = Some (NumericDatum w v), out_op = Some op0,
                      status = st\<rparr>
          in if is_decimalv3_type (expr_type (node r))
             then Some (done\<lparr>returned :=
                    check_decimal_overflow get_scale_factor vt
                      (precision (expr_type (node r))) v\<rparr>)
             else Some done)"

text \<open>
  Step 3 onwards of \<^verbatim>\<open>get_predicate_value\<close>, once \<^verbatim>\<open>l\<close> and \<^verbatim>\<open>r\<close> are fixed: evaluate
  \<^verbatim>\<open>r\<close>, refuse a null, take the data column, set \<^verbatim>\<open>*op\<close>, and read the value as
  \<^verbatim>\<open>ValueType\<close> says. A cell of another kind than \<^verbatim>\<open>ValueType\<close> reads (a failed
  \<^verbatim>\<open>DCHECK\<close> and a bad cast in the source) is \<open>None\<close>. The unreachable-path
  \<^verbatim>\<open>DCHECK(false)\<close> is followed by its \<^verbatim>\<open>return false\<close>.
\<close>

definition extract_const ::
  "(int \<Rightarrow> int) \<Rightarrow> ValueType \<Rightarrow> Expr \<Rightarrow> Expr \<Rightarrow> bool \<Rightarrow> Status \<Rightarrow> PredicateValue option" where
  "extract_const get_scale_factor vt expr r reverse_op st =
     (let fail = \<lparr>returned = False, out_value = None, out_op = None, status = st\<rparr> in
      case evaluate (node r) of
        None \<Rightarrow> Some fail
      | Some column_ptr \<Rightarrow>
          if only_null column_ptr \<or> is_null_0 column_ptr then Some fail
          else if \<not> column_is_nullable column_ptr \<and> \<not> column_is_constant column_ptr
          then Some fail
          else
            let data = data_column column_ptr;
                op0 = (if op (node expr) = EQ \<or> op (node expr) = NE
                       then to_olap_filter_type (op (node expr)) False
                       else to_olap_filter_type (op (node expr)) reverse_op);
                done = \<lparr>returned = True, out_value = Some data, out_op = Some op0, status = st\<rparr>
            in case vt of
                 VT_DateValue \<Rightarrow>
                   (case data of
                      TimestampDatum ts \<Rightarrow> Some (date_from_timestamp ts op0 st)
                    | DateDatum d \<Rightarrow> Some done
                    | _ \<Rightarrow> None)
               | VT_Slice \<Rightarrow>
                   (case data of SliceDatum s \<Rightarrow> Some done | _ \<Rightarrow> None)
               | VT_Decimal w \<Rightarrow> fixed_width_value get_scale_factor vt w r data op0 st
               | VT_Other w \<Rightarrow> fixed_width_value get_scale_factor vt w r data op0 st)"

text \<open>
  \<^verbatim>\<open>get_predicate_value<ValueType>(obj_pool, slot, expr, ctx, value, op, status)\<close>: the
  two children, the swap that puts the constant on the right, the type test with
  \<^verbatim>\<open>ignore_cast\<close>, the cast on a DATE slot looked through, the slot test, then the
  extraction above.
\<close>

definition get_predicate_value ::
  "(int \<Rightarrow> int) \<Rightarrow> ValueType \<Rightarrow> SlotDescriptor \<Rightarrow> Expr \<Rightarrow> Status \<Rightarrow> PredicateValue option" where
  "get_predicate_value get_scale_factor vt slot expr st =
     (let fail = \<lparr>returned = False, out_value = None, out_op = None, status = st\<rparr> in
      if length (children expr) \<noteq> 2 then Some fail
      else
        let l0 = children expr ! 0;
            r0 = children expr ! 1;
            reverse_op = (\<not> is_constant (node r0));
            l1 = (if reverse_op then r0 else l0);
            r = (if reverse_op then l0 else r0)
        in if type (expr_type (node l1)) \<noteq> type (slot_type slot) \<and> \<not> ignore_cast slot l1
           then Some fail
           else
             case (if vt = VT_DateValue \<and> op (node l1) = CAST then get_child l1 0 else Some l1) of
               None \<Rightarrow> None
             | Some l \<Rightarrow>
                 if \<not> is_slotref (node l) \<or> \<not> is_constant (node r) then Some fail
                 else if length (slot_ids (node l)) \<noteq> 1 \<or> slot_ids (node l) ! 0 \<noteq> slot_id slot
                 then Some fail
                 else extract_const get_scale_factor vt expr r reverse_op st)"

text \<open>
  The shape the claims about \<^verbatim>\<open>get_predicate_value\<close> speak of: a node with two
  children, one a constant and the other the slot's reference (under
  \<^verbatim>\<open>ValueType = DateValue\<close> possibly below a cast), of the slot's type tag or under
  \<^verbatim>\<open>ignore_cast\<close>, whose constant evaluates to the non-null column \<open>c\<close>.
  \<open>const_operand\<close> is the child the code calls \<^verbatim>\<open>r\<close> after the swap, \<open>slot_operand\<close> the
  one it calls \<^verbatim>\<open>l\<close>, and \<open>extracted_op\<close> the operator lines 124 to 128 store in \<^verbatim>\<open>*op\<close>.
\<close>

definition const_operand :: "Expr \<Rightarrow> Expr" where
  "const_operand expr =
     (if is_constant (node (children expr ! 1)) then children expr ! 1 else children expr ! 0)"

definition slot_operand :: "Expr \<Rightarrow> Expr" where
  "slot_operand expr =
     (if is_constant (node (children expr ! 1)) then children expr ! 0 else children expr ! 1)"

definition extracted_op :: "Expr \<Rightarrow> SQLFilterOp" where
  "extracted_op expr =
     (if op (node expr) = EQ \<or> op (node expr) = NE
      then to_olap_filter_type (op (node expr)) False
      else to_olap_filter_type (op (node expr)) (\<not> is_constant (node (children expr ! 1))))"

definition slot_constant_operand :: "ValueType \<Rightarrow> SlotDescriptor \<Rightarrow> Expr \<Rightarrow> Column \<Rightarrow> bool" where
  "slot_constant_operand vt slot expr c =
     (length (children expr) = 2 \<and>
      (type (expr_type (node (slot_operand expr))) = type (slot_type slot) \<or>
       ignore_cast slot (slot_operand expr)) \<and>
      (case (if vt = VT_DateValue \<and> op (node (slot_operand expr)) = CAST
             then get_child (slot_operand expr) 0 else Some (slot_operand expr)) of
         None \<Rightarrow> False
       | Some l \<Rightarrow> is_slotref (node l) \<and> slot_ids (node l) = [slot_id slot]) \<and>
      is_constant (node (const_operand expr)) \<and>
      evaluate (node (const_operand expr)) = Some c \<and>
      only_null c = False \<and> is_null_0 c = False \<and>
      (column_is_nullable c \<or> column_is_constant c))"

section \<open>Example expressions\<close>

text \<open>
  A slot reference, a constant with its evaluated cell, and a binary predicate over two
  operands, for evaluating the definitions on concrete inputs.
\<close>

definition leaf_node :: ExprNode where
  "leaf_node =
     \<lparr>node_type = LITERAL, op = INVALID_OPCODE,
      expr_type = \<lparr>type = TYPE_INT, precision = 0, scale = 0\<rparr>,
      is_slotref = False, is_constant = False, slot_ids = [], evaluate = None,
      is_join_runtime_filter = False, is_not_in = False, null_in_set = False,
      hash_set = {||}, is_null_scalar_function = None, context_status = OK\<rparr>"

definition slot_ref :: "int \<Rightarrow> TypeDescriptor \<Rightarrow> Expr" where
  "slot_ref sid t =
     Expr (leaf_node\<lparr>node_type := SLOT_REF, expr_type := t, is_slotref := True,
                     slot_ids := [sid]\<rparr>) []"

definition const_expr :: "TypeDescriptor \<Rightarrow> Datum \<Rightarrow> Expr" where
  "const_expr t d =
     Expr (leaf_node\<lparr>expr_type := t, is_constant := True,
             evaluate := Some \<lparr>only_null = False, is_null_0 = False,
                               column_is_nullable = False, column_is_constant = True,
                               data_column = d\<rparr>\<rparr>) []"

definition binary_pred :: "TExprOpcode \<Rightarrow> Expr \<Rightarrow> Expr \<Rightarrow> Expr" where
  "binary_pred opc l r =
     Expr (leaf_node\<lparr>node_type := BINARY_PRED, op := opc,
             expr_type := \<lparr>type = TYPE_BOOLEAN, precision = 0, scale = 0\<rparr>,
             slot_ids := slot_ids (node l) @ slot_ids (node r)\<rparr>) [l, r]"

definition date_col :: SlotDescriptor where
  "date_col = \<lparr>slot_id = 1, slot_type = \<lparr>type = TYPE_DATE, precision = 0, scale = 0\<rparr>,
               col_name = ''DATE_COL''\<rparr>"

text \<open>
  The constant \<^verbatim>\<open>'2020-01-01 01:00:00'\<close>: Julian day 2458850 and one hour, in
  microseconds.
\<close>

definition datetime_2020_01_01_01_00_00 :: Expr where
  "datetime_2020_01_01_01_00_00 =
     const_expr \<lparr>type = TYPE_DATETIME, precision = 0, scale = 0\<rparr>
       (TimestampDatum \<lparr>ts_julian = 2458850, ts_time = 3600000000\<rparr>)"

definition date_col_ref :: Expr where
  "date_col_ref = slot_ref 1 \<lparr>type = TYPE_DATE, precision = 0, scale = 0\<rparr>"

text \<open>
  A DECIMAL64 column declared with precision 4, a DECIMAL32 column declared with
  precision 9, and a DECIMAL64 constant, in a cell of eight bytes, whose type has the
  precision \<open>p\<close>; the scale factor of a precision is the power of ten.
\<close>

definition decimal_col :: SlotDescriptor where
  "decimal_col = \<lparr>slot_id = 2, slot_type = \<lparr>type = TYPE_DECIMAL64, precision = 4, scale = 0\<rparr>,
                  col_name = ''DEC_COL''\<rparr>"

definition decimal_col_ref :: Expr where
  "decimal_col_ref = slot_ref 2 \<lparr>type = TYPE_DECIMAL64, precision = 4, scale = 0\<rparr>"



definition decimal_const :: "int \<Rightarrow> int \<Rightarrow> Expr" where
  "decimal_const p v =
     const_expr \<lparr>type = TYPE_DECIMAL64, precision = p, scale = 0\<rparr> (NumericDatum 8 v)"

definition exp10 :: "int \<Rightarrow> int" where
  "exp10 p = 10 ^ nat p"

section \<open>The predicate builder\<close>

text \<open>
  A native filter condition (\<^verbatim>\<open>TCondition\<close>) as the prepare step fills it.
\<close>

record TCondition =
  column_name :: string
  condition_op :: string
  condition_values :: "string list"
  is_index_filter_only :: bool

text \<open>
  An \<^verbatim>\<open>ExprContext\<close> is known by its root. \<^verbatim>\<open>get_root_expr(ctx)\<close> tests whether the
  root is a \<^verbatim>\<open>DictMappingExpr\<close> and then takes its child 1, so a context is either over an
  ordinary expression or over a dictionary mapping with its node and its two children.
\<close>

datatype ExprContext = ExprContext Expr | DictMappingContext ExprNode Expr Expr

fun get_root_expr :: "ExprContext \<Rightarrow> Expr" where
  "get_root_expr (DictMappingContext n c0 c1) = c1"
| "get_root_expr (ExprContext e) = e"

text \<open>
  The two expression containers. \<^verbatim>\<open>RawExprContainer::root()\<close> is the expression itself
  and its \<^verbatim>\<open>expr_context\<close> makes a context, prepares and opens it, which may fail;
  \<^verbatim>\<open>ExprContextContainer::root()\<close> is \<^verbatim>\<open>get_root_expr\<close> of its context, which
  \<^verbatim>\<open>expr_context\<close> returns as it is.
\<close>

datatype Container = RawExprContainer Expr | ExprContextContainer ExprContext

fun root :: "Container \<Rightarrow> Expr" where
  "root (RawExprContainer root_expr) = root_expr"
| "root (ExprContextContainer expr_ctx) = get_root_expr expr_ctx"

fun expr_context :: "Container \<Rightarrow> Status + ExprContext" where
  "expr_context (RawExprContainer root_expr) =
     (if context_status (node root_expr) \<noteq> OK then Inl (context_status (node root_expr))
      else Inr (ExprContext root_expr))"
| "expr_context (ExprContextContainer expr_ctx) = Inr expr_ctx"

definition build_raw_expr_containers :: "Expr list \<Rightarrow> Container list" where
  "build_raw_expr_containers exprs = map RawExprContainer exprs"

definition build_expr_context_containers :: "ExprContext list \<Rightarrow> Container list" where
  "build_expr_context_containers expr_contexts = map ExprContextContainer expr_contexts"

text \<open>
  A published join runtime filter, as far as the binder looks at it, and its probe
  descriptor: the slot id of the probe expression when that is a slot reference
  (\<^verbatim>\<open>is_probe_slot_ref\<close>) and the filter, \<open>None\<close> while it has not arrived.
\<close>

record JoinRuntimeFilter =
  has_null :: bool
  min_value :: Datum
  max_value :: Datum

record RuntimeFilterProbeDescriptor =
  filter_id :: int
  probe_slot_ref :: "int option"
  runtime_filter :: "JoinRuntimeFilter option"

text \<open>
  The mutable members of a \<^verbatim>\<open>ChunkPredicateBuilder\<close>: the normalized flags, the column
  ranges in the iteration order of their map, the olap filters, the null conditions, the
  column expression contexts by slot index, the unarrived runtime filters recorded in
  \<^verbatim>\<open>rt_ranger_params\<close>, and the scan keys. \<^verbatim>\<open>ColumnValueRange\<close> and \<^verbatim>\<open>OlapScanKeys\<close> are
  declared outside these sources: they are the type parameters \<open>'r\<close> and \<open>'k\<close>.
\<close>

record ('r, 'k) BuilderState =
  normalized_exprs :: "bool list"
  column_value_ranges :: "(string \<times> 'r) list"
  olap_filters :: "TCondition list"
  is_null_vector :: "TCondition list"
  slot_index_to_expr_ctxs :: "nat \<rightharpoonup> ExprContext list"
  unarrived_rf :: "(RuntimeFilterProbeDescriptor \<times> SlotDescriptor) list"
  scan_keys :: 'k

datatype BuilderType = Type_AND | Type_OR

text \<open>
  A builder: the members its constructor fixes (\<^verbatim>\<open>_type\<close>, \<^verbatim>\<open>_exprs\<close>,
  \<^verbatim>\<open>_allow_partial_normalized\<close>), its mutable members, and \<^verbatim>\<open>_child_builders\<close>.
\<close>

datatype ('r, 'k) Builder =
  Builder (builder_type: BuilderType) (exprs: "Container list")
    (allow_partial_normalized: bool) (state: "('r, 'k) BuilderState")
    (child_builders: "('r, 'k) Builder list")

text \<open>
  The constructor: \<^verbatim>\<open>_normalized_exprs(_exprs.size())\<close> is all false and the other
  members are empty; \<open>empty_keys\<close> is the default-constructed \<^verbatim>\<open>OlapScanKeys\<close>.
\<close>

definition new_builder ::
  "'k \<Rightarrow> BuilderType \<Rightarrow> Container list \<Rightarrow> bool \<Rightarrow> ('r, 'k) Builder" where
  "new_builder empty_keys ty es allow_partial =
     Builder ty es allow_partial
       \<lparr>normalized_exprs = replicate (length es) False, column_value_ranges = [],
        olap_filters = [], is_null_vector = [], slot_index_to_expr_ctxs = Map.empty,
        unarrived_rf = [], scan_keys = empty_keys\<rparr> []"

text \<open>
  The options of the conjuncts manager that the builder reads, with
  \<^verbatim>\<open>config::max_pushdown_conditions_per_column\<close> and \<^verbatim>\<open>support_column_expr_predicate\<close>
  (declared outside these sources).
\<close>

record Options =
  enable_column_expr_predicate :: bool
  decoded_slots :: "SlotDescriptor list"
  runtime_filters :: "RuntimeFilterProbeDescriptor list"
  max_pushdown_conditions_per_column :: nat
  support_column_expr_predicate :: "LogicalType \<Rightarrow> bool"

text \<open>
  What the builder calls and these sources do not define: the operations of
  \<^verbatim>\<open>ColumnValueRange\<close> (\<^verbatim>\<open>add_fixed_values\<close>, \<^verbatim>\<open>is_init_state\<close>,
  \<^verbatim>\<open>set_index_filter_only\<close>, \<^verbatim>\<open>to_olap_filter\<close> giving the conditions it puts in the
  vector, \<^verbatim>\<open>is_empty_value_range\<close>), \<^verbatim>\<open>build_minmax_range\<close> of the runtime range pruner
  (told whether the slot has a global dictionary), and the default \<^verbatim>\<open>OlapScanKeys\<close>.
  With them stand the two other steps of the partial pass, \<^verbatim>\<open>normalize_expressions\<close>
  and \<^verbatim>\<open>build_scan_keys\<close>: they run the type dispatch over the decoded slots and the
  scan key extension, whose \<^verbatim>\<open>type_dispatch_predicate\<close>, range and scan key operations
  are declared outside these sources; both always return \<^verbatim>\<open>Status::OK()\<close>, and each is
  taken as a change of the builder's mutable members that no property below looks into.
\<close>

record ('r, 'k) External =
  add_fixed_values :: "SQLFilterOp \<Rightarrow> Datum fset \<Rightarrow> 'r \<Rightarrow> Status \<times> 'r"
  is_init_state :: "'r \<Rightarrow> bool"
  set_index_filter_only :: "bool \<Rightarrow> 'r \<Rightarrow> 'r"
  build_minmax_range :: "bool \<Rightarrow> JoinRuntimeFilter \<Rightarrow> 'r \<Rightarrow> 'r"
  to_olap_filter :: "'r \<Rightarrow> TCondition list"
  is_empty_value_range :: "'r \<Rightarrow> bool"
  default_scan_keys :: 'k
  normalize_expressions :: "Container list \<Rightarrow> ('r, 'k) BuilderState \<Rightarrow> ('r, 'k) BuilderState"
  build_scan_keys :: "Container list \<Rightarrow> ('r, 'k) BuilderState \<Rightarrow> ('r, 'k) BuilderState"

text \<open>
  \<^verbatim>\<open>build_olap_filters\<close>: \<^verbatim>\<open>olap_filters.clear()\<close>, then for each column range in map
  order its conditions are computed, an empty range returns the end-of-file status at
  once, and otherwise the conditions are appended. \<open>olap_filters_loop\<close> is the loop over
  the ranges still to visit.
\<close>

fun olap_filters_loop ::
  "('r, 'k) External \<Rightarrow> (string \<times> 'r) list \<Rightarrow> ('r, 'k) BuilderState \<Rightarrow>
     Status \<times> ('r, 'k) BuilderState" where
  "olap_filters_loop ext [] st = (OK, st)"
| "olap_filters_loop ext ((name, rng) # rest) st =
     (let filters = to_olap_filter ext rng;
          empty_range = is_empty_value_range ext rng
      in if empty_range then (EndOfFile ''EOF, Filter by always false condition'', st)
         else olap_filters_loop ext rest (st\<lparr>olap_filters := olap_filters st @ filters\<rparr>))"

definition build_olap_filters ::
  "('r, 'k) External \<Rightarrow> ('r, 'k) BuilderState \<Rightarrow> Status \<times> ('r, 'k) BuilderState" where
  "build_olap_filters ext st =
     olap_filters_loop ext (column_value_ranges st) (st\<lparr>olap_filters := []\<rparr>)"

text \<open>
  \<^verbatim>\<open>build_column_expr_predicates\<close>. \<open>slot_id_to_index\<close> is the map the first loop fills:
  \<^verbatim>\<open>insert\<close> keeps the first index of a slot id. The second loop, from index \<open>i\<close>: a
  conjunct not yet normalized, with exactly one slot id that is a decoded slot of a
  supported type, gets an entry for its slot index, then its context; the function is
  \<^verbatim>\<open>void\<close>, so a failure of \<^verbatim>\<open>expr_context\<close> under \<^verbatim>\<open>ASSIGN_OR_RETURN\<close> ends the loop
  there and is not reported; otherwise the context is appended and the flag set.
\<close>

fun slot_id_to_index :: "SlotDescriptor list \<Rightarrow> int \<Rightarrow> nat option" where
  "slot_id_to_index [] sid = None"
| "slot_id_to_index (s # slots) sid =
     (if slot_id s = sid then Some 0 else map_option Suc (slot_id_to_index slots sid))"

function build_column_expr_predicates_from ::
  "Options \<Rightarrow> Container list \<Rightarrow> nat \<Rightarrow> ('r, 'k) BuilderState \<Rightarrow> ('r, 'k) BuilderState" where
  "build_column_expr_predicates_from opts es i st =
     (if i < length es then
        if normalized_exprs st ! i then build_column_expr_predicates_from opts es (Suc i) st
        else
          let root_expr = root (es ! i);
              ids = slot_ids (node root_expr)
          in if length ids \<noteq> 1 then build_column_expr_predicates_from opts es (Suc i) st
             else
               case slot_id_to_index (decoded_slots opts) (ids ! 0) of
                 None \<Rightarrow> build_column_expr_predicates_from opts es (Suc i) st
               | Some index \<Rightarrow>
                   if \<not> support_column_expr_predicate opts
                         (type (slot_type (decoded_slots opts ! index)))
                   then build_column_expr_predicates_from opts es (Suc i) st
                   else
                     let ctxs = (case slot_index_to_expr_ctxs st index of
                                   None \<Rightarrow> (slot_index_to_expr_ctxs st)(index \<mapsto> [])
                                 | Some _ \<Rightarrow> slot_index_to_expr_ctxs st)
                     in case expr_context (es ! i) of
                          Inl err \<Rightarrow> st\<lparr>slot_index_to_expr_ctxs := ctxs\<rparr>
                        | Inr expr_ctx \<Rightarrow>
                            build_column_expr_predicates_from opts es (Suc i)
                              (st\<lparr>slot_index_to_expr_ctxs :=
                                    ctxs(index \<mapsto> (case ctxs index of None \<Rightarrow> [] | Some v \<Rightarrow> v) @ [expr_ctx]),
                                  normalized_exprs := (normalized_exprs st)[i := True]\<rparr>)
      else st)"
  by pat_completeness auto
termination
  by (relation "measure (\<lambda>(opts, es, i, st). length es - i)") auto

declare build_column_expr_predicates_from.simps [simp del]

definition build_column_expr_predicates ::
  "Options \<Rightarrow> Container list \<Rightarrow> ('r, 'k) BuilderState \<Rightarrow> ('r, 'k) BuilderState" where
  "build_column_expr_predicates opts es st = build_column_expr_predicates_from opts es 0 st"

text \<open>
  The block of \<^verbatim>\<open>parse_conjuncts\<close> under \<^verbatim>\<open>if (_allow_partial_normalized)\<close>: each of
  \<^verbatim>\<open>normalize_expressions\<close>, \<^verbatim>\<open>build_olap_filters\<close> and \<^verbatim>\<open>build_scan_keys\<close> under
  \<^verbatim>\<open>RETURN_IF_ERROR\<close>.
\<close>

definition partial_pass ::
  "('r, 'k) External \<Rightarrow> Container list \<Rightarrow> ('r, 'k) BuilderState \<Rightarrow>
     Status \<times> ('r, 'k) BuilderState" where
  "partial_pass ext es st =
     (let st1 = normalize_expressions ext es st in
      case build_olap_filters ext st1 of
        (s, st2) \<Rightarrow> if s \<noteq> OK then (s, st2) else (OK, build_scan_keys ext es st2))"

text \<open>
  The measure for the recursion of the builders: the number of nodes of an expression,
  and for a conjunct list the nodes of its roots and its length.
\<close>

fun expr_weight :: "Expr \<Rightarrow> nat" where
  "expr_weight (Expr n cs) = Suc (sum_list (map expr_weight cs) + length cs)"

definition exprs_weight :: "Container list \<Rightarrow> nat" where
  "exprs_weight es = sum_list (map (\<lambda>c. expr_weight (root c)) es) + length es"

lemma exprs_weight_raw:
  "exprs_weight (build_raw_expr_containers (children e)) < expr_weight e"
  by (cases e) (simp add: exprs_weight_def build_raw_expr_containers_def comp_def)

lemma exprs_weight_nth:
  "i < length es \<Longrightarrow> expr_weight (root (es ! i)) < exprs_weight es"
proof (induction es arbitrary: i)
  case Nil
  then show ?case by simp
next
  case (Cons c es)
  show ?case
  proof (cases i)
    case 0
    then show ?thesis by (simp add: exprs_weight_def)
  next
    case (Suc k)
    with Cons.prems have "k < length es" by simp
    from Cons.IH [OF this] show ?thesis
      using Suc by (simp add: exprs_weight_def)
  qed
qed

text \<open>
  \<^verbatim>\<open>_normalize_and_or_predicate\<close>, \<^verbatim>\<open>parse_conjuncts\<close> and the loop of
  \<^verbatim>\<open>_normalize_and_or_predicates\<close> from index \<open>i\<close>, which call one another. A
  \<^verbatim>\<open>StatusOr<bool>\<close> is \<open>Inl\<close> of the error status or \<open>Inr\<close> of the boolean; each function
  also gives the members it has changed: the parent's child builders, or the builder.
  \<^verbatim>\<open>ASSIGN_OR_RETURN\<close> returns the error of the child's \<^verbatim>\<open>parse_conjuncts\<close>. The flag
  array has the length of the conjunct list by the constructor, so the loop reads it in
  range.
\<close>

function normalize_and_or_predicate ::
    "Options \<Rightarrow> ('r, 'k) External \<Rightarrow> Expr \<Rightarrow> ('r, 'k) Builder list \<Rightarrow>
       (Status + bool) \<times> ('r, 'k) Builder list"
  and parse_conjuncts ::
    "Options \<Rightarrow> ('r, 'k) External \<Rightarrow> ('r, 'k) Builder \<Rightarrow> (Status + bool) \<times> ('r, 'k) Builder"
  and normalize_and_or_predicates_from ::
    "Options \<Rightarrow> ('r, 'k) External \<Rightarrow> nat \<Rightarrow> ('r, 'k) Builder \<Rightarrow>
       (Status + bool) \<times> ('r, 'k) Builder"
where
  "normalize_and_or_predicate opts ext root_expr cbs =
     (if op (node root_expr) = COMPOUND_OR then
        (case parse_conjuncts opts ext
                (new_builder (default_scan_keys ext) Type_OR
                   (build_raw_expr_containers (children root_expr)) False) of
           (Inl err, child_builder) \<Rightarrow> (Inl err, cbs)
         | (Inr normalized, child_builder) \<Rightarrow>
             (Inr normalized, if normalized then cbs @ [child_builder] else cbs))
      else if op (node root_expr) = COMPOUND_AND then
        (case parse_conjuncts opts ext
                (new_builder (default_scan_keys ext) Type_AND
                   (build_raw_expr_containers (children root_expr)) False) of
           (Inl err, child_builder) \<Rightarrow> (Inl err, cbs)
         | (Inr normalized, child_builder) \<Rightarrow>
             (Inr normalized, if normalized then cbs @ [child_builder] else cbs))
      else (Inr False, cbs))"
| "parse_conjuncts opts ext (Builder ty es ap st cbs) =
     (case (if ap then partial_pass ext es st else (OK, st)) of
        (s, st1) \<Rightarrow>
          if s \<noteq> OK then (Inl s, Builder ty es ap st1 cbs)
          else
            normalize_and_or_predicates_from opts ext 0
              (Builder ty es ap
                 (if enable_column_expr_predicate opts
                  then build_column_expr_predicates opts es st1 else st1) cbs))"
| "normalize_and_or_predicates_from opts ext i (Builder ty es ap st cbs) =
     (if i < length es then
        if normalized_exprs st ! i
        then normalize_and_or_predicates_from opts ext (Suc i) (Builder ty es ap st cbs)
        else
          (case normalize_and_or_predicate opts ext (root (es ! i)) cbs of
             (Inl err, cbs1) \<Rightarrow> (Inl err, Builder ty es ap st cbs1)
           | (Inr normalized, cbs1) \<Rightarrow>
               if \<not> normalized \<and> \<not> ap then (Inr False, Builder ty es ap st cbs1)
               else
                 normalize_and_or_predicates_from opts ext (Suc i)
                   (Builder ty es ap
                      (st\<lparr>normalized_exprs := (normalized_exprs st)[i := normalized]\<rparr>) cbs1))
      else (Inr True, Builder ty es ap st cbs))"
  by pat_completeness auto
termination
proof (relation "measures
    [\<lambda>x. case x of Inl (opts, ext, e, cbs) \<Rightarrow> expr_weight e
              | Inr (Inl (opts, ext, b)) \<Rightarrow> exprs_weight (exprs b)
              | Inr (Inr (opts, ext, i, b)) \<Rightarrow> exprs_weight (exprs b),
     \<lambda>x. case x of Inl _ \<Rightarrow> 0 | Inr (Inl _) \<Rightarrow> 2 | Inr (Inr _) \<Rightarrow> Suc 0,
     \<lambda>x. case x of Inr (Inr (opts, ext, i, b)) \<Rightarrow> length (exprs b) - i | _ \<Rightarrow> 0]",
    goal_cases)
  case 1
  then show ?case by simp
qed (auto simp: new_builder_def exprs_weight_raw exprs_weight_nth)

declare normalize_and_or_predicate.simps [simp del]
declare parse_conjuncts.simps [simp del]
declare normalize_and_or_predicates_from.simps [simp del]

text \<open>
  The column ranges that \<^verbatim>\<open>build_olap_filters\<close> visits before the first empty one.
\<close>

definition nonempty_prefix :: "('r, 'k) External \<Rightarrow> (string \<times> 'r) list \<Rightarrow> (string \<times> 'r) list" where
  "nonempty_prefix ext ranges = takeWhile (\<lambda>p. \<not> is_empty_value_range ext (snd p)) ranges"

section \<open>Join runtime filters\<close>

text \<open>
  \<^verbatim>\<open>normalize_join_runtime_filter<SlotType, RangeValueType>(slot, range)\<close>, first loop:
  the body for conjunct \<open>i\<close>, on the range and the builder's mutable members. A node with
  opcode \<^verbatim>\<open>FILTER_IN\<close> and no child 0 is outside the source's defined behaviour
  (\<open>None\<close>). The flag is set as soon as the predicate is known to be a join runtime filter
  on the slot, before the tests on its value set; the status that \<^verbatim>\<open>add_fixed_values\<close>
  returns is dropped.
\<close>

definition in_filter_step ::
  "Options \<Rightarrow> ('r, 'k) External \<Rightarrow> Container list \<Rightarrow> SlotDescriptor \<Rightarrow> nat \<Rightarrow>
     'r \<times> ('r, 'k) BuilderState \<Rightarrow> ('r \<times> ('r, 'k) BuilderState) option" where
  "in_filter_step opts ext es slot i s =
     (case s of (rng, st) \<Rightarrow>
        if normalized_exprs st ! i then Some (rng, st)
        else
          let root_expr = root (es ! i) in
          if op (node root_expr) = TExprOpcode_FILTER_IN then
            (case get_child root_expr 0 of
               None \<Rightarrow> None
             | Some l \<Rightarrow>
                 if \<not> is_slotref (node l) \<or>
                    (type (expr_type (node l)) \<noteq> type (slot_type slot) \<and> \<not> ignore_cast slot l)
                 then Some (rng, st)
                 else if length (slot_ids (node l)) = 1 \<and> slot_ids (node l) ! 0 = slot_id slot
                 then
                   if \<not> is_join_runtime_filter (node root_expr) then Some (rng, st)
                   else
                     let st1 = st\<lparr>normalized_exprs := (normalized_exprs st)[i := True]\<rparr> in
                     if is_not_in (node root_expr) \<or> null_in_set (node root_expr) \<or>
                        fcard (hash_set (node root_expr)) > max_pushdown_conditions_per_column opts
                     then Some (rng, st1)
                     else Some (snd (add_fixed_values ext FILTER_IN (hash_set (node root_expr)) rng),
                                st1)
                 else Some (rng, st))
          else Some (rng, st))"

function in_filters_from ::
  "Options \<Rightarrow> ('r, 'k) External \<Rightarrow> Container list \<Rightarrow> SlotDescriptor \<Rightarrow> nat \<Rightarrow>
     'r \<times> ('r, 'k) BuilderState \<Rightarrow> ('r \<times> ('r, 'k) BuilderState) option" where
  "in_filters_from opts ext es slot i s =
     (if i < length es then
        (case in_filter_step opts ext es slot i s of
           None \<Rightarrow> None
         | Some s1 \<Rightarrow> in_filters_from opts ext es slot (Suc i) s1)
      else Some s)"
  by pat_completeness auto
termination
  by (relation "measure (\<lambda>(opts, ext, es, slot, i, s). length es - i)") auto

declare in_filters_from.simps [simp del]

text \<open>
  Second loop, over the runtime filter descriptors: the body for one descriptor. A
  descriptor whose probe is not this slot is skipped; a filter not yet published is
  recorded by \<^verbatim>\<open>add_unarrived_rf\<close>; a filter with a null is skipped; otherwise a range
  still in its initial state is marked index-filter-only and the min/max range is built,
  through the global dictionary when \<^verbatim>\<open>SlotType\<close> is VARCHAR and the slot has one.
  \<open>global_dict\<close> tells whether the query's global dictionary map has the slot id.
\<close>

definition bloom_filter_step ::
  "('r, 'k) External \<Rightarrow> LogicalType \<Rightarrow> (int \<Rightarrow> bool) \<Rightarrow> SlotDescriptor \<Rightarrow>
     RuntimeFilterProbeDescriptor \<Rightarrow> 'r \<times> ('r, 'k) BuilderState \<Rightarrow> 'r \<times> ('r, 'k) BuilderState" where
  "bloom_filter_step ext SlotType global_dict slot desc s =
     (case s of (rng, st) \<Rightarrow>
        (case probe_slot_ref desc of
           None \<Rightarrow> (rng, st)
         | Some sid \<Rightarrow>
             if sid \<noteq> slot_id slot then (rng, st)
             else
               (case runtime_filter desc of
                  None \<Rightarrow> (rng, st\<lparr>unarrived_rf := unarrived_rf st @ [(desc, slot)]\<rparr>)
                | Some rf \<Rightarrow>
                    if has_null rf then (rng, st)
                    else
                      let rng1 = (if is_init_state ext rng
                                  then set_index_filter_only ext True rng else rng)
                      in (build_minmax_range ext (SlotType = TYPE_VARCHAR \<and> global_dict sid) rf rng1,
                          st))))"

fun bloom_filters ::
  "('r, 'k) External \<Rightarrow> LogicalType \<Rightarrow> (int \<Rightarrow> bool) \<Rightarrow> SlotDescriptor \<Rightarrow>
     RuntimeFilterProbeDescriptor list \<Rightarrow> 'r \<times> ('r, 'k) BuilderState \<Rightarrow>
     'r \<times> ('r, 'k) BuilderState" where
  "bloom_filters ext SlotType global_dict slot [] s = s"
| "bloom_filters ext SlotType global_dict slot (desc # descs) s =
     bloom_filters ext SlotType global_dict slot descs
       (bloom_filter_step ext SlotType global_dict slot desc s)"

definition normalize_join_runtime_filter ::
  "Options \<Rightarrow> ('r, 'k) External \<Rightarrow> LogicalType \<Rightarrow> (int \<Rightarrow> bool) \<Rightarrow> Container list \<Rightarrow>
     SlotDescriptor \<Rightarrow> 'r \<times> ('r, 'k) BuilderState \<Rightarrow> ('r \<times> ('r, 'k) BuilderState) option" where
  "normalize_join_runtime_filter opts ext SlotType global_dict es slot s =
     (case in_filters_from opts ext es slot 0 s of
        None \<Rightarrow> None
      | Some s1 \<Rightarrow> Some (bloom_filters ext SlotType global_dict slot (runtime_filters opts) s1))"

text \<open>
  An IN-list conjunct tagged as a join runtime filter that matches the slot: opcode
  \<^verbatim>\<open>FILTER_IN\<close>, child 0 a reference to exactly this slot, of the slot's type tag or
  under \<^verbatim>\<open>ignore_cast\<close>, and \<^verbatim>\<open>is_join_runtime_filter()\<close>.
\<close>

definition join_filter_on_slot :: "SlotDescriptor \<Rightarrow> Expr \<Rightarrow> bool" where
  "join_filter_on_slot slot root_expr =
     (op (node root_expr) = TExprOpcode_FILTER_IN \<and>
      (case children root_expr of
         [] \<Rightarrow> False
       | l # _ \<Rightarrow>
           is_slotref (node l) \<and>
           (type (expr_type (node l)) = type (slot_type slot) \<or> ignore_cast slot l) \<and>
           slot_ids (node l) = [slot_id slot]) \<and>
      is_join_runtime_filter (node root_expr))"

text \<open>
  The tests that make such a predicate contribute nothing: a NOT-IN, a null in the set,
  or more values than the configured cap.
\<close>

definition value_set_unusable :: "Options \<Rightarrow> Expr \<Rightarrow> bool" where
  "value_set_unusable opts root_expr =
     (is_not_in (node root_expr) \<or> null_in_set (node root_expr) \<or>
      fcard (hash_set (node root_expr)) > max_pushdown_conditions_per_column opts)"

text \<open>
  The conjunct lists on which the first loop is defined: every node with opcode
  \<^verbatim>\<open>FILTER_IN\<close> has a child 0.
\<close>

definition in_preds_have_child :: "Container list \<Rightarrow> bool" where
  "in_preds_have_child es =
     list_all (\<lambda>c. op (node (root c)) = TExprOpcode_FILTER_IN \<longrightarrow> children (root c) \<noteq> []) es"

text \<open>
  A builder all of whose members are normalized, at every depth: its flag array has the
  length of its conjunct list and holds only true, and the same holds of each of its child
  builders.
\<close>

fun fully_normalized :: "('r, 'k) Builder \<Rightarrow> bool" where
  "fully_normalized (Builder ty es ap st cbs) =
     (length (normalized_exprs st) = length es \<and>
      list_all (\<lambda>flag. flag) (normalized_exprs st) \<and>
      (\<forall>b \<in> set cbs. fully_normalized b))"

section \<open>An example range and example builders\<close>

text \<open>
  A small column range to run the builder on: the column's name, a fixed value set when
  one was added, min/max bounds when a runtime filter gave them, and the
  index-filter-only mark. It is empty when its fixed set is empty, and gives one
  condition when it has a fixed set.
\<close>

record ExampleRange =
  range_column :: string
  range_values :: "Datum fset option"
  range_bounds :: "(Datum \<times> Datum) option"
  range_index_filter_only :: bool

definition full_range :: "string \<Rightarrow> ExampleRange" where
  "full_range name =
     \<lparr>range_column = name, range_values = None, range_bounds = None,
      range_index_filter_only = False\<rparr>"

definition example_ext :: "(ExampleRange, unit) External" where
  "example_ext =
     \<lparr>add_fixed_values = (\<lambda>fop vs r.
        (OK, r\<lparr>range_values := Some (case range_values r of None \<Rightarrow> vs
                                       | Some old \<Rightarrow> old |\<inter>| vs)\<rparr>)),
      is_init_state = (\<lambda>r. range_values r = None \<and> range_bounds r = None),
      set_index_filter_only = (\<lambda>b r. r\<lparr>range_index_filter_only := b\<rparr>),
      build_minmax_range = (\<lambda>dict rf r. r\<lparr>range_bounds := Some (min_value rf, max_value rf)\<rparr>),
      to_olap_filter = (\<lambda>r. case range_values r of
          None \<Rightarrow> []
        | Some vs \<Rightarrow> [\<lparr>column_name = range_column r, condition_op = ''*='',
                         condition_values = [], is_index_filter_only = range_index_filter_only r\<rparr>]),
      is_empty_value_range = (\<lambda>r. range_values r = Some {||}),
      default_scan_keys = (),
      normalize_expressions = (\<lambda>es st. st),
      build_scan_keys = (\<lambda>es st. st)\<rparr>"

definition example_opts :: Options where
  "example_opts =
     \<lparr>enable_column_expr_predicate = True,
      decoded_slots =
        [\<lparr>slot_id = 1, slot_type = \<lparr>type = TYPE_INT, precision = 0, scale = 0\<rparr>,
          col_name = ''c1''\<rparr>,
         \<lparr>slot_id = 2, slot_type = \<lparr>type = TYPE_INT, precision = 0, scale = 0\<rparr>,
          col_name = ''c2''\<rparr>],
      runtime_filters = [],
      max_pushdown_conditions_per_column = 2,
      support_column_expr_predicate = (\<lambda>t. True)\<rparr>"

definition int_type :: TypeDescriptor where
  "int_type = \<lparr>type = TYPE_INT, precision = 0, scale = 0\<rparr>"

definition int_col :: "int \<Rightarrow> SlotDescriptor" where
  "int_col sid = \<lparr>slot_id = sid, slot_type = int_type, col_name = ''c''\<rparr>"

text \<open>
  Leaf predicates over the two columns: a comparison of one slot with a constant, and a
  comparison of the two slots with each other, which has two slot ids and so cannot
  become a column expression predicate.
\<close>

definition one_slot_pred :: "int \<Rightarrow> int \<Rightarrow> Expr" where
  "one_slot_pred sid v =
     binary_pred EQ (slot_ref sid int_type) (const_expr int_type (NumericDatum 4 v))"

definition two_slot_pred :: Expr where
  "two_slot_pred = binary_pred LT (slot_ref 1 int_type) (slot_ref 2 int_type)"

definition compound :: "TExprOpcode \<Rightarrow> Expr list \<Rightarrow> Expr" where
  "compound opc cs =
     Expr (leaf_node\<lparr>node_type := COMPOUND_PRED, op := opc,
             expr_type := \<lparr>type = TYPE_BOOLEAN, precision = 0, scale = 0\<rparr>,
             slot_ids := concat (map (\<lambda>c. slot_ids (node c)) cs)\<rparr>) cs"

text \<open>
  An IN-list over slot 1 tagged as a join runtime filter, with its value set and whether
  it is a NOT-IN.
\<close>

definition join_in_filter :: "bool \<Rightarrow> Datum fset \<Rightarrow> Expr" where
  "join_in_filter not_in vs =
     Expr (leaf_node\<lparr>node_type := IN_PRED, op := TExprOpcode_FILTER_IN,
             expr_type := \<lparr>type = TYPE_BOOLEAN, precision = 0, scale = 0\<rparr>,
             slot_ids := [1], is_join_runtime_filter := True, is_not_in := not_in,
             hash_set := vs\<rparr>) [slot_ref 1 int_type]"

definition example_state :: "bool list \<Rightarrow> (string \<times> ExampleRange) list \<Rightarrow> (ExampleRange, unit) BuilderState" where
  "example_state flags ranges =
     \<lparr>normalized_exprs = flags, column_value_ranges = ranges, olap_filters = [],
      is_null_vector = [], slot_index_to_expr_ctxs = Map.empty, unarrived_rf = [],
      scan_keys = ()\<rparr>"

text \<open>
  Two column ranges in map order, the second one empty; a conjunct list holding one NOT-IN
  join runtime filter on slot 1; a published runtime filter whose domain has a null, with
  valid bounds, and one not yet published.
\<close>

definition two_ranges :: "(string \<times> ExampleRange) list" where
  "two_ranges =
     [(''a'', (full_range ''a'')\<lparr>range_values := Some {|NumericDatum 4 1|}\<rparr>),
      (''b'', (full_range ''b'')\<lparr>range_values := Some {||}\<rparr>)]"

definition not_in_join_filter :: "Container list" where
  "not_in_join_filter = [RawExprContainer (join_in_filter True {|NumericDatum 4 5|})]"

definition null_bearing_filter :: RuntimeFilterProbeDescriptor where
  "null_bearing_filter =
     \<lparr>filter_id = 7, probe_slot_ref = Some 1,
      runtime_filter = Some \<lparr>has_null = True, min_value = NumericDatum 4 1,
                              max_value = NumericDatum 4 5\<rparr>\<rparr>"

definition unarrived_filter :: RuntimeFilterProbeDescriptor where
  "unarrived_filter = \<lparr>filter_id = 8, probe_slot_ref = Some 1, runtime_filter = None\<rparr>"

text \<open>
  The disjunction \<^verbatim>\<open>c1 = 10 OR c2 = 20 OR c1 < c2\<close>, whose third branch has two slots;
  the same without that branch; and a root builder that owns the first as its only
  conjunct, not normalized by the partial pass.
\<close>

definition three_branch_or :: Expr where
  "three_branch_or = compound COMPOUND_OR [one_slot_pred 1 10, one_slot_pred 2 20, two_slot_pred]"

definition two_branch_or :: Expr where
  "two_branch_or = compound COMPOUND_OR [one_slot_pred 1 10, one_slot_pred 2 20]"

definition or_conjunct_root :: "(ExampleRange, unit) Builder" where
  "or_conjunct_root =
     Builder Type_AND [ExprContextContainer (ExprContext three_branch_or)] True
       (example_state [False] []) []"

section \<open>Properties of the residual list\<close>

lemma not_push_down_from_eq:
  "not_push_down_from i ns cs ps =
     ps @ map (\<lambda>j. cs ! j) (filter (\<lambda>j. \<not> is_pred_normalized ns j) [i..<length cs])"
proof (induction i ns cs ps rule: not_push_down_from.induct)
  case (1 i ns cs ps)
  show ?case
  proof (cases "i < length cs")
    case True
    then show ?thesis
      using "1.IH" [OF True]
      by (subst not_push_down_from.simps) (simp add: upt_conv_Cons)
  next
    case False
    then show ?thesis
      by (subst not_push_down_from.simps) simp
  qed
qed

lemma map_nth_append_tail:
  "map (\<lambda>j. (cs @ late) ! j) [length cs..<length cs + length late] = late"
  by (rule nth_equalityI) (simp_all add: nth_append)

lemma filter_late_all:
  "length ns \<le> length cs \<Longrightarrow>
   filter (\<lambda>j. \<not> is_pred_normalized ns j) [length cs..<length cs + k] = [length cs..<length cs + k]"
  by (rule filter_True) (simp add: is_pred_normalized_def)

text \<open>
  Claim C10. For every index at or beyond the length of the normalized-flag array,
  \<^verbatim>\<open>is_pred_normalized\<close> is false, so conjuncts appended to the conjunct list after the
  builder was constructed (the flag array being no longer than the original list) all
  appear, in order, at the end of the residual list of \<^verbatim>\<open>get_not_push_down_conjuncts\<close>.
\<close>

theorem late_conjuncts_stay_residual:
  "(\<forall>index. length flags \<le> index \<longrightarrow> \<not> is_pred_normalized flags index) \<and>
   (length flags \<le> length conjunct_ctxs \<longrightarrow>
      get_not_push_down_conjuncts flags (conjunct_ctxs @ late) predicates =
      get_not_push_down_conjuncts flags conjunct_ctxs predicates @ late)"
proof (intro conjI allI impI)
  fix index
  assume "length flags \<le> index"
  then show "\<not> is_pred_normalized flags index"
    by (simp add: is_pred_normalized_def)
next
  assume len: "length flags \<le> length conjunct_ctxs"
  let ?n = "length conjunct_ctxs"
  have split: "[0..<length (conjunct_ctxs @ late)] = [0..<?n] @ [?n..<?n + length late]"
    using upt_add_eq_append [of 0 ?n "length late"] by simp
  have early: "map (\<lambda>j. (conjunct_ctxs @ late) ! j)
                 (filter (\<lambda>j. \<not> is_pred_normalized flags j) [0..<?n]) =
               map (\<lambda>j. conjunct_ctxs ! j)
                 (filter (\<lambda>j. \<not> is_pred_normalized flags j) [0..<?n])"
    by (rule map_cong) (auto simp: nth_append)
  show "get_not_push_down_conjuncts flags (conjunct_ctxs @ late) predicates =
        get_not_push_down_conjuncts flags conjunct_ctxs predicates @ late"
    unfolding get_not_push_down_conjuncts_def not_push_down_from_eq split
    using early filter_late_all [OF len, of "length late"] map_nth_append_tail [of conjunct_ctxs late]
    by simp
qed

theorem late_conjuncts_stay_residual_witness:
  "\<not> is_pred_normalized [True, False] 2 \<and>
   get_not_push_down_conjuncts [True, False] ([''c0'', ''c1''] @ [''late'']) [] = [''c1'', ''late'']"
proof -
  have "get_not_push_down_conjuncts [True, False] [''c0'', ''c1''] [] = [''c1'']"
    by (simp add: get_not_push_down_conjuncts_def not_push_down_from_eq is_pred_normalized_def upt_rec)
  then show ?thesis
    using late_conjuncts_stay_residual [of "[True, False]" "[''c0'', ''c1'']" "[''late'']" "[]"]
    by simp
qed

section \<open>Properties of the key ranges\<close>

text \<open>
  Claim C6. When the scan keys give their ranges without error, \<^verbatim>\<open>get_key_ranges\<close>
  returns OK with those ranges, and with exactly one default (unbounded) range when they
  gave none: its successful result is never the empty list.
\<close>

theorem empty_key_ranges_become_full_scan:
  "get_key_range keys key_ranges = (OK, rs) \<Longrightarrow>
   get_key_ranges get_key_range keys key_ranges =
     (OK, if rs = [] then [default_OlapScanRange] else rs)"
  by (simp add: get_key_ranges_def ok_def)

theorem empty_key_ranges_become_full_scan_witness:
  "get_key_ranges (\<lambda>k v. (OK, [])) () [] = (OK, [default_OlapScanRange])"
  using empty_key_ranges_become_full_scan [where get_key_range = "\<lambda>k v. (OK, [])" and keys = "()" and key_ranges = "[]" and rs = "[]"]
  by simp

section \<open>Properties of the chunk buffer limiter\<close>

lemma uint_scast_nonneg:
  fixes c :: "32 word"
  assumes "0 \<le> sint c"
  shows "uint (scast c :: 64 word) = sint c"
proof -
  have up: "sint (scast c :: 64 word) = sint c"
    by (rule sint_up_scast) (simp add: is_up)
  have "sint c < 2 ^ 31"
    using sint_lt [of c] by simp
  then have "sint c < 2 ^ 64"
    by simp
  then have "take_bit 64 (sint c) = sint c"
    using assms by (simp add: take_bit_int_eq_self)
  then show ?thesis
    using uint_sint [of "scast c :: 64 word"] up by simp
qed

lemma pin_ok_sum:
  fixes c n :: "32 word" and cap :: "64 word"
  assumes c: "0 \<le> sint c" and n: "0 \<le> sint n" and cap: "uint cap < 2 ^ 31"
    and le: "\<not> (scast c + scast n > cap)"
  shows "sint (c + n) = sint c + sint n" and "sint c + sint n \<le> uint cap"
proof -
  have c31: "sint c < 2 ^ 31" and n31: "sint n < 2 ^ 31"
    using sint_lt [of c] sint_lt [of n] by simp_all
  have "uint ((scast c :: 64 word) + scast n) = (sint c + sint n) mod 2 ^ 64"
    by (simp add: uint_word_ariths uint_scast_nonneg c n)
  also have "\<dots> = sint c + sint n"
    using c n c31 n31 by simp
  finally have sum: "uint ((scast c :: 64 word) + scast n) = sint c + sint n" .
  from le have "uint ((scast c :: 64 word) + scast n) \<le> uint cap"
    by (simp add: word_less_def)
  with sum show small: "sint c + sint n \<le> uint cap"
    by simp
  with cap have "sint c + sint n < 2 ^ 31"
    by simp
  then have "signed_take_bit 31 (sint c + sint n) = sint c + sint n"
    using c n by (simp add: signed_take_bit_int_eq_self)
  then show "sint (c + n) = sint c + sint n"
    by (simp add: sint_word_ariths)
qed

lemma sum_remove1:
  "t \<in> set held \<Longrightarrow>
   sum_list (map f held) = f t + sum_list (map f (remove1 t held))" for f :: "'a \<Rightarrow> int"
  by (induction held) auto

lemma sum_nonneg:
  "\<forall>t \<in> set held. 0 \<le> f t \<Longrightarrow> 0 \<le> sum_list (map f held)" for f :: "'a \<Rightarrow> int"
  by (induction held) auto

lemma unpin_diff:
  fixes c n :: "32 word"
  assumes "0 \<le> sint n" "sint n \<le> sint c"
  shows "sint (c - n) = sint c - sint n"
proof -
  have "sint c < 2 ^ 31"
    using sint_lt [of c] by simp
  then have "signed_take_bit 31 (sint c - sint n) = sint c - sint n"
    using assms by (simp add: signed_take_bit_int_eq_self)
  then show ?thesis
    by (simp add: sint_word_ariths)
qed

lemma limiter_run_inv:
  "limiter_run l held \<Longrightarrow>
     sint (pinned_chunks_counter l) = sum_list (map (\<lambda>t. sint (num_tokens t)) held) \<and>
     (\<forall>t \<in> set held. 0 \<le> sint (num_tokens t)) \<and> uint (capacity l) < 2 ^ 31"
proof (induction rule: limiter_run.induct)
  case (run_init l)
  then show ?case by simp
next
  case (run_pin l held n r l' c)
  let ?c = "pinned_chunks_counter l"
  have nonneg: "0 \<le> sint ?c"
    using run_pin.IH sum_nonneg [of held "\<lambda>t. sint (num_tokens t)"] by simp
  show ?case
  proof (cases "scast ?c + scast n > capacity l")
    case True
    then have "r = None" "l' = l"
      using run_pin.hyps(3) by (auto simp: pin_def unpin_def Let_def)
    then show ?thesis using run_pin.IH by simp
  next
    case False
    then have r: "r = Some \<lparr>num_tokens = n\<rparr>" and l': "l' = l\<lparr>pinned_chunks_counter := ?c + n\<rparr>"
      using run_pin.hyps(3) by (auto simp: pin_def Let_def)
    have "sint (?c + n) = sint ?c + sint n"
      using pin_ok_sum(1) [OF nonneg run_pin.hyps(2) _ False] run_pin.IH by simp
    then show ?thesis
      using run_pin.IH run_pin.hyps(2) by (simp add: r l')
  qed
next
  case (run_release l held t l' c)
  let ?c = "pinned_chunks_counter l"
  have l': "l' = l\<lparr>pinned_chunks_counter := ?c - num_tokens t\<rparr>"
    using run_release.hyps(3) by (auto simp: unpin_def Let_def)
  have t0: "0 \<le> sint (num_tokens t)"
    using run_release.IH run_release.hyps(2) by blast
  have split: "sint ?c = sint (num_tokens t) + sum_list (map (\<lambda>t. sint (num_tokens t)) (remove1 t held))"
    using run_release.IH sum_remove1 [OF run_release.hyps(2), of "\<lambda>t. sint (num_tokens t)"] by simp
  have rest: "\<forall>u \<in> set (remove1 t held). 0 \<le> sint (num_tokens u)"
    using run_release.IH by (meson notin_set_remove1)
  then have "0 \<le> sum_list (map (\<lambda>t. sint (num_tokens t)) (remove1 t held))"
    by (rule sum_nonneg)
  then have "sint (num_tokens t) \<le> sint ?c"
    using split by simp
  then have "sint (?c - num_tokens t) = sint ?c - sint (num_tokens t)"
    using unpin_diff [OF t0] by simp
  then show ?case
    using split rest run_release.IH by (simp add: l')
next
  case (run_capacity l held cap)
  then show ?case by simp
qed

text \<open>
  Claim C9. A \<^verbatim>\<open>pin\<close> whose sum exceeds the capacity returns no token and leaves the
  limiter as it was (the tentative increment is undone); a successful \<^verbatim>\<open>pin\<close> returns a
  token for \<open>n\<close> and adds \<open>n\<close> to the counter; \<^verbatim>\<open>_unpin\<close> subtracts its count and
  asserts that the counter was at least one before. In every state reached from a zero
  counter by pins of non-negative counts and releases of held tokens, the counter is the
  sum of the held tokens and is not negative, and a successful pin adds \<open>n\<close> without
  wrapping.
\<close>

theorem pin_unpin_counter:
  "(capacity l < scast (pinned_chunks_counter l) + scast n \<longrightarrow>
      pin n l = (None, l, 1 \<le> sint (pinned_chunks_counter l + n))) \<and>
   (\<not> capacity l < scast (pinned_chunks_counter l) + scast n \<longrightarrow>
      pin n l = (Some \<lparr>num_tokens = n\<rparr>,
                 l\<lparr>pinned_chunks_counter := pinned_chunks_counter l + n\<rparr>, True)) \<and>
   unpin n l = (l\<lparr>pinned_chunks_counter := pinned_chunks_counter l - n\<rparr>,
                1 \<le> sint (pinned_chunks_counter l)) \<and>
   (limiter_run l held \<longrightarrow>
      0 \<le> sint (pinned_chunks_counter l) \<and>
      sint (pinned_chunks_counter l) = sum_list (map (\<lambda>t. sint (num_tokens t)) held) \<and>
      (0 \<le> sint n \<and> \<not> capacity l < scast (pinned_chunks_counter l) + scast n \<longrightarrow>
         sint (pinned_chunks_counter l + n) = sint (pinned_chunks_counter l) + sint n))"
proof (intro conjI impI)
  assume "capacity l < scast (pinned_chunks_counter l) + scast n"
  then show "pin n l = (None, l, 1 \<le> sint (pinned_chunks_counter l + n))"
    by (simp add: pin_def unpin_def Let_def)
next
  assume "\<not> capacity l < scast (pinned_chunks_counter l) + scast n"
  then show "pin n l = (Some \<lparr>num_tokens = n\<rparr>,
                 l\<lparr>pinned_chunks_counter := pinned_chunks_counter l + n\<rparr>, True)"
    by (simp add: pin_def Let_def)
next
  show "unpin n l = (l\<lparr>pinned_chunks_counter := pinned_chunks_counter l - n\<rparr>,
                1 \<le> sint (pinned_chunks_counter l))"
    by (simp add: unpin_def Let_def)
next
  assume run: "limiter_run l held"
  show eq: "sint (pinned_chunks_counter l) = sum_list (map (\<lambda>t. sint (num_tokens t)) held)"
    using limiter_run_inv [OF run] by simp
  show nonneg: "0 \<le> sint (pinned_chunks_counter l)"
    unfolding eq using limiter_run_inv [OF run] by (intro sum_nonneg) simp
  assume "0 \<le> sint n \<and> \<not> capacity l < scast (pinned_chunks_counter l) + scast n"
  then show "sint (pinned_chunks_counter l + n) = sint (pinned_chunks_counter l) + sint n"
    using pin_ok_sum(1) [OF nonneg, of n "capacity l"] limiter_run_inv [OF run] by simp
qed

theorem pin_unpin_counter_witness:
  "pin 2 \<lparr>pinned_chunks_counter = 1, capacity = 2\<rparr> =
     (None, \<lparr>pinned_chunks_counter = 1, capacity = 2\<rparr>, True) \<and>
   pin 1 \<lparr>pinned_chunks_counter = 1, capacity = 2\<rparr> =
     (Some \<lparr>num_tokens = 1\<rparr>, \<lparr>pinned_chunks_counter = 2, capacity = 2\<rparr>, True) \<and>
   unpin 1 \<lparr>pinned_chunks_counter = 1, capacity = 2\<rparr> =
     (\<lparr>pinned_chunks_counter = 0, capacity = 2\<rparr>, True) \<and>
   limiter_run \<lparr>pinned_chunks_counter = 1, capacity = 2\<rparr> [\<lparr>num_tokens = 1\<rparr>] \<and>
   sint (pinned_chunks_counter \<lparr>pinned_chunks_counter = 1, capacity = 2\<rparr>) = 1"
proof -
  let ?l0 = "\<lparr>pinned_chunks_counter = 0, capacity = 2\<rparr>"
  let ?l1 = "\<lparr>pinned_chunks_counter = 1, capacity = 2\<rparr>"
  have init: "limiter_run ?l0 []"
    by (rule run_init) simp_all
  have "pin 1 ?l0 = (Some \<lparr>num_tokens = 1\<rparr>, ?l1, True)"
    by (simp add: pin_def Let_def)
  from run_pin [OF init _ this] have run: "limiter_run ?l1 [\<lparr>num_tokens = 1\<rparr>]"
    by simp
  show ?thesis
    using run pin_unpin_counter [of ?l1 2 "[\<lparr>num_tokens = 1\<rparr>]"]
      pin_unpin_counter [of ?l1 1 "[\<lparr>num_tokens = 1\<rparr>]"]
    by simp
qed

section \<open>Properties of the extraction of constants\<close>

lemma get_predicate_value_operand:
  assumes "slot_constant_operand vt slot expr c"
  shows "get_predicate_value sf vt slot expr st =
           extract_const sf vt expr (const_operand expr) (\<not> is_constant (node (children expr ! 1))) st"
proof -
  let ?l1 = "slot_operand expr"
  let ?sel = "if vt = VT_DateValue \<and> op (node ?l1) = CAST then get_child ?l1 0 else Some ?l1"
  have len: "length (children expr) = 2"
    and ty: "type (expr_type (node ?l1)) = type (slot_type slot) \<or> ignore_cast slot ?l1"
    and cs: "is_constant (node (const_operand expr))"
    and sel: "case ?sel of None \<Rightarrow> False
              | Some l \<Rightarrow> is_slotref (node l) \<and> slot_ids (node l) = [slot_id slot]"
    using assms unfolding slot_constant_operand_def by blast+
  from sel obtain l where l: "?sel = Some l" "is_slotref (node l)" "slot_ids (node l) = [slot_id slot]"
    by (cases ?sel) auto
  show ?thesis
  proof (cases "is_constant (node (children expr ! 1))")
    case True
    then have l1: "?l1 = children expr ! 0" and r: "const_operand expr = children expr ! 1"
      by (simp_all add: slot_operand_def const_operand_def)
    show ?thesis
    proof (cases "vt = VT_DateValue \<and> op (node (children expr ! 0)) = CAST")
      case c: True
      then show ?thesis
        using len ty cs l True unfolding l1 r get_predicate_value_def Let_def
        by auto
    next
      case c: False
      then show ?thesis
        using len ty cs l True unfolding l1 r get_predicate_value_def Let_def
        by auto
    qed
  next
    case False
    then have l1: "?l1 = children expr ! 1" and r: "const_operand expr = children expr ! 0"
      by (simp_all add: slot_operand_def const_operand_def)
    show ?thesis
    proof (cases "vt = VT_DateValue \<and> op (node (children expr ! 0)) = CAST")
      case c: True
      then show ?thesis
        using len ty cs l False unfolding l1 r get_predicate_value_def Let_def
        by auto
    next
      case c: False
      then show ?thesis
        using len ty cs l False unfolding l1 r get_predicate_value_def Let_def
        by auto
    qed
  qed
qed

lemma extract_const_timestamp:
  assumes "slot_constant_operand vt slot expr c" and "data_column c = TimestampDatum ts"
  shows "extract_const sf VT_DateValue expr (const_operand expr)
           (\<not> is_constant (node (children expr ! 1))) st =
         Some (date_from_timestamp ts (extracted_op expr) st)"
proof -
  have ev: "evaluate (node (const_operand expr)) = Some c"
    and nn: "\<not> only_null c" "\<not> is_null_0 c" "column_is_nullable c \<or> column_is_constant c"
    using assms(1) by (simp_all add: slot_constant_operand_def)
  show ?thesis
    using ev nn assms(2) by (auto simp: extract_const_def extracted_op_def Let_def)
qed

lemma lossy_cast:
  assumes "ts_time ts \<noteq> 0"
  shows "implicit_cast_TimestampValue (implicit_cast_DateValue ts) \<noteq> ts"
proof
  assume "implicit_cast_TimestampValue (implicit_cast_DateValue ts) = ts"
  then have "ts_time (implicit_cast_TimestampValue (implicit_cast_DateValue ts)) = ts_time ts"
    by simp
  with assms show False
    by (simp add: implicit_cast_TimestampValue_def)
qed

lemmas example_defs =
  binary_pred_def slot_ref_def const_expr_def leaf_node_def date_col_def date_col_ref_def
  datetime_2020_01_01_01_00_00_def decimal_col_def decimal_col_ref_def decimal_const_def

lemma date_example_operand:
  "slot_constant_operand VT_DateValue date_col (binary_pred opc date_col_ref datetime_2020_01_01_01_00_00)
     \<lparr>only_null = False, is_null_0 = False, column_is_nullable = False,
      column_is_constant = True,
      data_column = TimestampDatum \<lparr>ts_julian = 2458850, ts_time = 3600000000\<rparr>\<rparr>"
  by (simp add: slot_constant_operand_def slot_operand_def const_operand_def example_defs)

lemma date_example_op:
  "extracted_op (binary_pred opc date_col_ref datetime_2020_01_01_01_00_00) =
     to_olap_filter_type opc False"
  by (simp add: extracted_op_def example_defs)

text \<open>
  Claim C2. For a comparison of a DATE slot with a constant that evaluates to a timestamp
  with a nonzero time of day, \<^verbatim>\<open>get_predicate_value\<close> gives the truncated date and
  rewrites the extracted operator: \<open>\<ge>\<close> becomes \<open>>\<close>, \<open><\<close> becomes \<open>\<le>\<close>, \<open>>\<close> and
  \<open>\<le>\<close> are kept, the IN-style (equality) operator makes the call return false with the
  end-of-file status, and the NOT-IN-style operator makes it return false with the status
  untouched.
\<close>

theorem lossy_date_rewrite:
  assumes "slot_constant_operand VT_DateValue slot expr c"
    and "data_column c = TimestampDatum ts" and "ts_time ts \<noteq> 0"
  shows "get_predicate_value sf VT_DateValue slot expr st =
     Some (case extracted_op expr of
        FILTER_LARGER_OR_EQUAL \<Rightarrow>
          \<lparr>returned = True, out_value = Some (DateDatum \<lparr>julian = ts_julian ts\<rparr>),
           out_op = Some FILTER_LARGER, status = st\<rparr>
      | FILTER_LESS \<Rightarrow>
          \<lparr>returned = True, out_value = Some (DateDatum \<lparr>julian = ts_julian ts\<rparr>),
           out_op = Some FILTER_LESS_OR_EQUAL, status = st\<rparr>
      | FILTER_LARGER \<Rightarrow>
          \<lparr>returned = True, out_value = Some (DateDatum \<lparr>julian = ts_julian ts\<rparr>),
           out_op = Some FILTER_LARGER, status = st\<rparr>
      | FILTER_LESS_OR_EQUAL \<Rightarrow>
          \<lparr>returned = True, out_value = Some (DateDatum \<lparr>julian = ts_julian ts\<rparr>),
           out_op = Some FILTER_LESS_OR_EQUAL, status = st\<rparr>
      | FILTER_IN \<Rightarrow>
          \<lparr>returned = False, out_value = Some (DateDatum \<lparr>julian = ts_julian ts\<rparr>),
           out_op = Some FILTER_IN, status = EndOfFile ''predicate for date always false''\<rparr>
      | FILTER_NOT_IN \<Rightarrow>
          \<lparr>returned = False, out_value = Some (DateDatum \<lparr>julian = ts_julian ts\<rparr>),
           out_op = Some FILTER_NOT_IN, status = st\<rparr>)"
proof -
  have "extract_const sf VT_DateValue expr (const_operand expr)
          (\<not> is_constant (node (children expr ! 1))) st =
        Some (date_from_timestamp ts (extracted_op expr) st)"
    by (rule extract_const_timestamp [OF assms(1,2)])
  then show ?thesis
    unfolding get_predicate_value_operand [OF assms(1)]
    using lossy_cast [OF assms(3)]
    by (cases "extracted_op expr")
       (simp_all add: date_from_timestamp_def Let_def implicit_cast_DateValue_def)
qed

theorem lossy_date_rewrite_witness:
  "get_predicate_value exp10 VT_DateValue date_col
     (binary_pred LT date_col_ref datetime_2020_01_01_01_00_00) OK =
   Some \<lparr>returned = True, out_value = Some (DateDatum \<lparr>julian = 2458850\<rparr>),
         out_op = Some FILTER_LESS_OR_EQUAL, status = OK\<rparr> \<and>
   get_predicate_value exp10 VT_DateValue date_col
     (binary_pred NE date_col_ref datetime_2020_01_01_01_00_00) OK =
   Some \<lparr>returned = False, out_value = Some (DateDatum \<lparr>julian = 2458850\<rparr>),
         out_op = Some FILTER_NOT_IN, status = OK\<rparr>"
  using lossy_date_rewrite [OF date_example_operand [where opc = LT],
      where ts = "\<lparr>ts_julian = 2458850, ts_time = 3600000000\<rparr>" and sf = exp10 and st = OK]
    lossy_date_rewrite [OF date_example_operand [where opc = NE],
      where ts = "\<lparr>ts_julian = 2458850, ts_time = 3600000000\<rparr>" and sf = exp10 and st = OK]
  by (simp add: date_example_op to_olap_filter_type_def)

lemma date_example_value:
  "get_predicate_value sf VT_DateValue date_col
     (binary_pred opc date_col_ref datetime_2020_01_01_01_00_00) st =
   Some (date_from_timestamp \<lparr>ts_julian = 2458850, ts_time = 3600000000\<rparr>
           (to_olap_filter_type opc False) st)"
proof -
  let ?c = "\<lparr>only_null = False, is_null_0 = False, column_is_nullable = False,
      column_is_constant = True,
      data_column = TimestampDatum \<lparr>ts_julian = 2458850, ts_time = 3600000000\<rparr>\<rparr>"
  have "data_column ?c = TimestampDatum \<lparr>ts_julian = 2458850, ts_time = 3600000000\<rparr>"
    by simp
  from extract_const_timestamp [OF date_example_operand this]
  show ?thesis
    unfolding get_predicate_value_operand [OF date_example_operand]
    by (simp add: date_example_op)
qed

lemma date_from_timestamp_example:
  "date_from_timestamp \<lparr>ts_julian = 2458850, ts_time = 3600000000\<rparr> op0 st =
     (case op0 of
        FILTER_LARGER_OR_EQUAL \<Rightarrow>
          \<lparr>returned = True, out_value = Some (DateDatum \<lparr>julian = 2458850\<rparr>),
           out_op = Some FILTER_LARGER, status = st\<rparr>
      | FILTER_LESS \<Rightarrow>
          \<lparr>returned = True, out_value = Some (DateDatum \<lparr>julian = 2458850\<rparr>),
           out_op = Some FILTER_LESS_OR_EQUAL, status = st\<rparr>
      | FILTER_IN \<Rightarrow>
          \<lparr>returned = False, out_value = Some (DateDatum \<lparr>julian = 2458850\<rparr>),
           out_op = Some FILTER_IN, status = EndOfFile ''predicate for date always false''\<rparr>
      | FILTER_NOT_IN \<Rightarrow>
          \<lparr>returned = False, out_value = Some (DateDatum \<lparr>julian = 2458850\<rparr>),
           out_op = Some FILTER_NOT_IN, status = st\<rparr>
      | _ \<Rightarrow>
          \<lparr>returned = True, out_value = Some (DateDatum \<lparr>julian = 2458850\<rparr>),
           out_op = Some op0, status = st\<rparr>)"
  by (cases op0)
     (simp_all add: date_from_timestamp_def Let_def implicit_cast_DateValue_def
        implicit_cast_TimestampValue_def)

text \<open>
  Claim C3, as stated, fails on its first half: on the DATE column the predicate
  \<^verbatim>\<open>DATE_COL = '2020-01-01 01:00:00'\<close> is not rewritten to \<^verbatim>\<open>DATE_COL > '2020-01-01'\<close>;
  the call returns false with the end-of-file status.
\<close>

theorem date_eq_is_not_rewritten_to_greater:
  "get_predicate_value exp10 VT_DateValue date_col
     (binary_pred EQ date_col_ref datetime_2020_01_01_01_00_00) OK =
   Some \<lparr>returned = False, out_value = Some (DateDatum \<lparr>julian = 2458850\<rparr>),
         out_op = Some FILTER_IN, status = EndOfFile ''predicate for date always false''\<rparr> \<and>
   get_predicate_value exp10 VT_DateValue date_col
     (binary_pred EQ date_col_ref datetime_2020_01_01_01_00_00) OK \<noteq>
   Some \<lparr>returned = True, out_value = Some (DateDatum \<lparr>julian = 2458850\<rparr>),
         out_op = Some FILTER_LARGER, status = OK\<rparr>"
  by (simp add: date_example_value date_from_timestamp_example to_olap_filter_type_def)

text \<open>
  Claim C3, amended. On the DATE column, \<^verbatim>\<open>DATE_COL >= '2020-01-01 01:00:00'\<close> is
  rewritten to \<^verbatim>\<open>DATE_COL > '2020-01-01'\<close> and \<^verbatim>\<open>DATE_COL <= '2020-01-01 01:00:00'\<close> to
  \<^verbatim>\<open>DATE_COL <= '2020-01-01'\<close>, while \<^verbatim>\<open>DATE_COL = '2020-01-01 01:00:00'\<close> yields no
  predicate and the end-of-file status.
\<close>

theorem date_example_rewrites:
  "get_predicate_value sf VT_DateValue date_col
     (binary_pred GE date_col_ref datetime_2020_01_01_01_00_00) OK =
   Some \<lparr>returned = True, out_value = Some (DateDatum \<lparr>julian = 2458850\<rparr>),
         out_op = Some FILTER_LARGER, status = OK\<rparr> \<and>
   get_predicate_value sf VT_DateValue date_col
     (binary_pred LE date_col_ref datetime_2020_01_01_01_00_00) OK =
   Some \<lparr>returned = True, out_value = Some (DateDatum \<lparr>julian = 2458850\<rparr>),
         out_op = Some FILTER_LESS_OR_EQUAL, status = OK\<rparr> \<and>
   get_predicate_value sf VT_DateValue date_col
     (binary_pred EQ date_col_ref datetime_2020_01_01_01_00_00) OK =
   Some \<lparr>returned = False, out_value = Some (DateDatum \<lparr>julian = 2458850\<rparr>),
         out_op = Some FILTER_IN, status = EndOfFile ''predicate for date always false''\<rparr>"
  by (simp add: date_example_value date_from_timestamp_example to_olap_filter_type_def)

theorem date_example_rewrites_witness:
  "returned (the (get_predicate_value exp10 VT_DateValue date_col
     (binary_pred GE date_col_ref datetime_2020_01_01_01_00_00) OK)) = True \<and>
   out_op (the (get_predicate_value exp10 VT_DateValue date_col
     (binary_pred GE date_col_ref datetime_2020_01_01_01_00_00) OK)) = Some FILTER_LARGER"
  using date_example_rewrites [where sf = exp10]
  by simp









section \<open>Properties of the olap filters\<close>

lemma olap_filters_loop_eq:
  "olap_filters_loop ext ranges st =
     (if list_ex (\<lambda>p. is_empty_value_range ext (snd p)) ranges
      then EndOfFile ''EOF, Filter by always false condition'' else OK,
      st\<lparr>olap_filters := olap_filters st @
            concat (map (\<lambda>p. to_olap_filter ext (snd p)) (nonempty_prefix ext ranges))\<rparr>)"
proof (induction ranges arbitrary: st)
  case Nil
  then show ?case by (simp add: nonempty_prefix_def)
next
  case (Cons p ranges)
  obtain name rng where p: "p = (name, rng)" by (cases p)
  show ?case
  proof (cases "is_empty_value_range ext rng")
    case True
    then show ?thesis by (simp add: p nonempty_prefix_def)
  next
    case False
    then show ?thesis
      using Cons.IH [of "st\<lparr>olap_filters := olap_filters st @ to_olap_filter ext rng\<rparr>"]
      by (simp add: p nonempty_prefix_def)
  qed
qed

lemma build_olap_filters_eq:
  "build_olap_filters ext st =
     (if list_ex (\<lambda>p. is_empty_value_range ext (snd p)) (column_value_ranges st)
      then EndOfFile ''EOF, Filter by always false condition'' else OK,
      st\<lparr>olap_filters :=
            concat (map (\<lambda>p. to_olap_filter ext (snd p))
                      (nonempty_prefix ext (column_value_ranges st)))\<rparr>)"
  by (simp add: build_olap_filters_def olap_filters_loop_eq)

text \<open>
  Claim C5. When some column range is empty, \<^verbatim>\<open>build_olap_filters\<close> returns the
  end-of-file status, which is not \<^verbatim>\<open>OK\<close>, at the first empty range: no condition of that
  range or of a later one is appended. \<^verbatim>\<open>parse_conjuncts\<close> of a builder that allows
  partial normalization returns that status at once, in place of its boolean: no scan
  keys, column expression predicates or nested builders are built, so the pass hands its
  caller the end-of-file status and no filters.
\<close>

theorem empty_range_short_circuit:
  assumes "list_ex (\<lambda>p. is_empty_value_range ext (snd p)) (column_value_ranges st)"
  shows "build_olap_filters ext st =
           (EndOfFile ''EOF, Filter by always false condition'',
            st\<lparr>olap_filters :=
                  concat (map (\<lambda>p. to_olap_filter ext (snd p))
                            (nonempty_prefix ext (column_value_ranges st)))\<rparr>) \<and>
         (column_value_ranges (normalize_expressions ext es st0) = column_value_ranges st \<longrightarrow>
          parse_conjuncts opts ext (Builder ty es True st0 cbs) =
            (Inl (EndOfFile ''EOF, Filter by always false condition''),
             Builder ty es True
               ((normalize_expressions ext es st0)\<lparr>olap_filters :=
                  concat (map (\<lambda>p. to_olap_filter ext (snd p))
                            (nonempty_prefix ext (column_value_ranges st)))\<rparr>) cbs))"
proof (intro conjI impI)
  show "build_olap_filters ext st =
           (EndOfFile ''EOF, Filter by always false condition'',
            st\<lparr>olap_filters :=
                  concat (map (\<lambda>p. to_olap_filter ext (snd p))
                            (nonempty_prefix ext (column_value_ranges st)))\<rparr>)"
    using assms by (simp add: build_olap_filters_eq)
next
  assume eq: "column_value_ranges (normalize_expressions ext es st0) = column_value_ranges st"
  have "partial_pass ext es st0 =
          (EndOfFile ''EOF, Filter by always false condition'',
           (normalize_expressions ext es st0)\<lparr>olap_filters :=
                  concat (map (\<lambda>p. to_olap_filter ext (snd p))
                            (nonempty_prefix ext (column_value_ranges st)))\<rparr>)"
    using assms eq by (simp add: partial_pass_def Let_def build_olap_filters_eq)
  then show "parse_conjuncts opts ext (Builder ty es True st0 cbs) =
            (Inl (EndOfFile ''EOF, Filter by always false condition''),
             Builder ty es True
               ((normalize_expressions ext es st0)\<lparr>olap_filters :=
                  concat (map (\<lambda>p. to_olap_filter ext (snd p))
                            (nonempty_prefix ext (column_value_ranges st)))\<rparr>) cbs)"
    by (subst parse_conjuncts.simps) simp
qed

lemma two_ranges_prefix:
  "nonempty_prefix example_ext two_ranges =
     [(''a'', (full_range ''a'')\<lparr>range_values := Some {|NumericDatum 4 1|}\<rparr>)]"
  by (simp add: nonempty_prefix_def two_ranges_def example_ext_def full_range_def)

lemma two_ranges_empty:
  "list_ex (\<lambda>p. is_empty_value_range example_ext (snd p))
     (column_value_ranges (example_state [] two_ranges))"
  by (simp add: two_ranges_def example_ext_def full_range_def example_state_def)

lemma two_ranges_filters:
  "concat (map (\<lambda>p. to_olap_filter example_ext (snd p)) (nonempty_prefix example_ext two_ranges)) =
     [\<lparr>column_name = ''a'', condition_op = ''*='', condition_values = [],
       is_index_filter_only = False\<rparr>]"
  unfolding two_ranges_prefix by (simp add: example_ext_def full_range_def)

theorem empty_range_short_circuit_witness:
  "build_olap_filters example_ext (example_state [] two_ranges) =
     (EndOfFile ''EOF, Filter by always false condition'',
      (example_state [] two_ranges)\<lparr>olap_filters :=
         [\<lparr>column_name = ''a'', condition_op = ''*='', condition_values = [],
           is_index_filter_only = False\<rparr>]\<rparr>) \<and>
   parse_conjuncts example_opts example_ext
     (Builder Type_AND [] True (example_state [] two_ranges) []) =
     (Inl (EndOfFile ''EOF, Filter by always false condition''),
      Builder Type_AND [] True
        ((example_state [] two_ranges)\<lparr>olap_filters :=
           [\<lparr>column_name = ''a'', condition_op = ''*='', condition_values = [],
             is_index_filter_only = False\<rparr>]\<rparr>) [])"
proof -
  have same: "normalize_expressions example_ext [] (example_state [] two_ranges) =
      example_state [] two_ranges"
    by (simp add: example_ext_def)
  have ranges: "column_value_ranges (example_state [] two_ranges) = two_ranges"
    by (simp add: example_state_def)
  from empty_range_short_circuit [OF two_ranges_empty,
      where es = "[]" and ?st0.0 = "example_state [] two_ranges" and opts = example_opts
        and ty = Type_AND and cbs = "[]"]
  show ?thesis
    unfolding same ranges two_ranges_filters by simp
qed

section \<open>Properties of the join runtime filters\<close>

lemma nth_update_True: "xs ! j \<Longrightarrow> (xs[i := True]) ! j"
  by (cases "i = j"; cases "i < length xs") (simp_all add: list_update_beyond)

lemma in_filter_step_cases:
  assumes "in_filter_step opts ext es slot i (rng, st) = Some (rng', st')"
  shows "st' = st \<or> st' = st\<lparr>normalized_exprs := (normalized_exprs st)[i := True]\<rparr>"
  using assms
  by (auto simp: in_filter_step_def Let_def split: if_splits option.splits)

lemma in_filter_step_flags:
  assumes "in_filter_step opts ext es slot i (rng, st) = Some (rng', st')"
  shows "length (normalized_exprs st') = length (normalized_exprs st) \<and>
         (\<forall>j. normalized_exprs st ! j \<longrightarrow> j < length (normalized_exprs st) \<longrightarrow>
              normalized_exprs st' ! j)"
proof -
  from in_filter_step_cases [OF assms]
  have "normalized_exprs st' = normalized_exprs st \<or>
        normalized_exprs st' = (normalized_exprs st)[i := True]"
    by auto
  then show ?thesis
    by (auto simp: nth_update_True)
qed

lemma in_filter_step_match:
  assumes "join_filter_on_slot slot (root (es ! i))" and "\<not> normalized_exprs st ! i"
  shows "in_filter_step opts ext es slot i (rng, st) =
     Some (if value_set_unusable opts (root (es ! i)) then rng
           else snd (add_fixed_values ext FILTER_IN (hash_set (node (root (es ! i)))) rng),
           st\<lparr>normalized_exprs := (normalized_exprs st)[i := True]\<rparr>)"
proof -
  obtain l ls where ch: "children (root (es ! i)) = l # ls"
    using assms(1) by (cases "children (root (es ! i))") (auto simp: join_filter_on_slot_def)
  then have "get_child (root (es ! i)) 0 = Some l"
    by (simp add: get_child_def)
  then show ?thesis
    using assms ch
    by (auto simp: in_filter_step_def join_filter_on_slot_def value_set_unusable_def Let_def)
qed

lemma in_filter_step_defined:
  assumes "op (node (root (es ! i))) = TExprOpcode_FILTER_IN \<longrightarrow> children (root (es ! i)) \<noteq> []"
  shows "\<exists>s'. in_filter_step opts ext es slot i s = Some s'"
proof (cases s)
  case (Pair rng st)
  show ?thesis
  proof (cases "op (node (root (es ! i))) = TExprOpcode_FILTER_IN")
    case True
    with assms obtain l ls where "children (root (es ! i)) = l # ls"
      by (cases "children (root (es ! i))") auto
    then have "get_child (root (es ! i)) 0 = Some l"
      by (simp add: get_child_def)
    then show ?thesis
      by (simp add: Pair in_filter_step_def Let_def)
  next
    case False
    then show ?thesis
      by (simp add: Pair in_filter_step_def Let_def)
  qed
qed

lemma in_filters_from_defined:
  assumes "in_preds_have_child es"
  shows "\<exists>s'. in_filters_from opts ext es slot k s = Some s'"
  using assms
proof (induction opts ext es slot k s rule: in_filters_from.induct)
  case (1 opts ext es slot i s)
  show ?case
  proof (cases "i < length es")
    case True
    then have "es ! i \<in> set es" by simp
    with "1.prems" have "op (node (root (es ! i))) = TExprOpcode_FILTER_IN \<longrightarrow>
        children (root (es ! i)) \<noteq> []"
      by (auto simp: in_preds_have_child_def list_all_iff)
    from in_filter_step_defined [OF this]
    obtain s1 where s1: "in_filter_step opts ext es slot i s = Some s1" by blast
    from "1.IH" [OF True s1 "1.prems"] obtain s' where
      "in_filters_from opts ext es slot (Suc i) s1 = Some s'" by blast
    then show ?thesis
      using True s1 by (subst in_filters_from.simps) simp
  next
    case False
    then show ?thesis
      by (subst in_filters_from.simps) simp
  qed
qed

lemma in_filters_from_flags:
  assumes "in_filters_from opts ext es slot k (rng, st) = Some (rng', st')"
  shows "length (normalized_exprs st') = length (normalized_exprs st) \<and>
         (\<forall>j. normalized_exprs st ! j \<longrightarrow> j < length (normalized_exprs st) \<longrightarrow>
              normalized_exprs st' ! j) \<and>
         (\<forall>i. k \<le> i \<longrightarrow> i < length es \<longrightarrow> i < length (normalized_exprs st) \<longrightarrow>
              join_filter_on_slot slot (root (es ! i)) \<longrightarrow> normalized_exprs st' ! i)"
  using assms
proof (induction opts ext es slot k "(rng, st)" arbitrary: rng st
    rule: in_filters_from.induct)
  case (1 opts ext es slot k)
  show ?case
  proof (cases "k < length es")
    case True
    from "1.prems" True obtain rng1 st1 where
      step: "in_filter_step opts ext es slot k (rng, st) = Some (rng1, st1)" and
      rest: "in_filters_from opts ext es slot (Suc k) (rng1, st1) = Some (rng', st')"
      by (subst (asm) in_filters_from.simps) (auto split: option.splits)
    note f1 = in_filter_step_flags [OF step]
    note ih = "1.hyps" [OF True step rest]
    have at_k: "k < length (normalized_exprs st) \<Longrightarrow>
        join_filter_on_slot slot (root (es ! k)) \<Longrightarrow> normalized_exprs st1 ! k"
    proof -
      assume len: "k < length (normalized_exprs st)"
        and m: "join_filter_on_slot slot (root (es ! k))"
      show "normalized_exprs st1 ! k"
      proof (cases "normalized_exprs st ! k")
        case True
        with f1 len show ?thesis by blast
      next
        case False
        from in_filter_step_match [OF m False, of opts ext rng] step len
        show ?thesis by auto
      qed
    qed
    show ?thesis
    proof (intro conjI allI impI)
      show "length (normalized_exprs st') = length (normalized_exprs st)"
        using f1 ih by simp
    next
      fix j assume "normalized_exprs st ! j" "j < length (normalized_exprs st)"
      then show "normalized_exprs st' ! j"
        using f1 ih by simp
    next
      fix i assume i: "k \<le> i" "i < length es" "i < length (normalized_exprs st)"
        "join_filter_on_slot slot (root (es ! i))"
      show "normalized_exprs st' ! i"
      proof (cases "i = k")
        case True
        with at_k i have "normalized_exprs st1 ! k" by simp
        with ih f1 i True show ?thesis by simp
      next
        case False
        with i have "Suc k \<le> i" by simp
        with ih f1 i show ?thesis by simp
      qed
    qed
  next
    case False
    with "1.prems" have "rng' = rng" "st' = st"
      by (subst (asm) in_filters_from.simps, simp)+
    with False show ?thesis by simp
  qed
qed

lemma bloom_filter_step_flags:
  "normalized_exprs (snd (bloom_filter_step ext T gd slot desc s)) = normalized_exprs (snd s)"
  by (cases s) (simp add: bloom_filter_step_def Let_def split: option.splits)

lemma bloom_filters_flags:
  "normalized_exprs (snd (bloom_filters ext T gd slot descs s)) = normalized_exprs (snd s)"
  by (induction descs arbitrary: s) (simp_all add: bloom_filter_step_flags)

lemma residual_skips_normalized:
  assumes "is_pred_normalized flags i" "i < length ctxs" "distinct ctxs"
  shows "ctxs ! i \<notin> set (get_not_push_down_conjuncts flags ctxs [])"
proof
  assume "ctxs ! i \<in> set (get_not_push_down_conjuncts flags ctxs [])"
  then obtain j where j: "j < length ctxs" "\<not> is_pred_normalized flags j" "ctxs ! j = ctxs ! i"
    by (auto simp: get_not_push_down_conjuncts_def not_push_down_from_eq)
  with assms(2,3) have "j = i"
    by (simp add: nth_eq_iff_index_eq)
  with j assms(1) show False by simp
qed

lemma bloom_filters_unchanged:
  assumes "list_all (\<lambda>d. probe_slot_ref d = Some (slot_id slot) \<longrightarrow>
              (case runtime_filter d of None \<Rightarrow> True | Some rf \<Rightarrow> has_null rf)) descs"
  shows "fst (bloom_filters ext T gd slot descs (rng, st)) = rng"
  using assms
proof (induction descs arbitrary: st)
  case Nil
  then show ?case by simp
next
  case (Cons d descs)
  from Cons.prems have d: "probe_slot_ref d = Some (slot_id slot) \<longrightarrow>
      (case runtime_filter d of None \<Rightarrow> True | Some rf \<Rightarrow> has_null rf)"
    and rest: "list_all (\<lambda>d. probe_slot_ref d = Some (slot_id slot) \<longrightarrow>
              (case runtime_filter d of None \<Rightarrow> True | Some rf \<Rightarrow> has_null rf)) descs"
    by simp_all
  from d have "fst (bloom_filter_step ext T gd slot d (rng, st)) = rng"
    by (auto simp: bloom_filter_step_def split: option.splits)
  then obtain st1 where "bloom_filter_step ext T gd slot d (rng, st) = (rng, st1)"
    by (cases "bloom_filter_step ext T gd slot d (rng, st)") simp
  then show ?case
    using Cons.IH [OF rest, of st1] by simp
qed

text \<open>
  Claim C8. A published runtime filter whose domain has a null leaves the range and the
  builder exactly as they were; a filter of this slot not yet published is appended to the
  unarrived list and the range is untouched; and when every descriptor of the slot is of
  one of these two kinds the whole loop returns the range unchanged.
\<close>

theorem null_or_unarrived_filter_leaves_range:
  "(runtime_filter desc = Some rf \<and> has_null rf \<longrightarrow>
      bloom_filter_step ext T gd slot desc (rng, st) = (rng, st)) \<and>
   (probe_slot_ref desc = Some (slot_id slot) \<and> runtime_filter desc = None \<longrightarrow>
      bloom_filter_step ext T gd slot desc (rng, st) =
        (rng, st\<lparr>unarrived_rf := unarrived_rf st @ [(desc, slot)]\<rparr>)) \<and>
   (list_all (\<lambda>d. probe_slot_ref d = Some (slot_id slot) \<longrightarrow>
        (case runtime_filter d of None \<Rightarrow> True | Some rf \<Rightarrow> has_null rf)) descs \<longrightarrow>
      fst (bloom_filters ext T gd slot descs (rng, st)) = rng)"
proof (intro conjI impI)
  assume "runtime_filter desc = Some rf \<and> has_null rf"
  then show "bloom_filter_step ext T gd slot desc (rng, st) = (rng, st)"
    by (simp add: bloom_filter_step_def split: option.splits)
next
  assume "probe_slot_ref desc = Some (slot_id slot) \<and> runtime_filter desc = None"
  then show "bloom_filter_step ext T gd slot desc (rng, st) =
        (rng, st\<lparr>unarrived_rf := unarrived_rf st @ [(desc, slot)]\<rparr>)"
    by (simp add: bloom_filter_step_def)
next
  assume "list_all (\<lambda>d. probe_slot_ref d = Some (slot_id slot) \<longrightarrow>
        (case runtime_filter d of None \<Rightarrow> True | Some rf \<Rightarrow> has_null rf)) descs"
  then show "fst (bloom_filters ext T gd slot descs (rng, st)) = rng"
    by (rule bloom_filters_unchanged)
qed

theorem null_or_unarrived_filter_leaves_range_witness:
  "bloom_filter_step example_ext TYPE_INT (\<lambda>sid. False) (int_col 1) null_bearing_filter
     (full_range ''c'', example_state [] []) = (full_range ''c'', example_state [] []) \<and>
   bloom_filter_step example_ext TYPE_INT (\<lambda>sid. False) (int_col 1) unarrived_filter
     (full_range ''c'', example_state [] []) =
     (full_range ''c'',
      (example_state [] [])\<lparr>unarrived_rf := [(unarrived_filter, int_col 1)]\<rparr>) \<and>
   fst (bloom_filters example_ext TYPE_INT (\<lambda>sid. False) (int_col 1)
          [null_bearing_filter, unarrived_filter] (full_range ''c'', example_state [] [])) =
     full_range ''c''"
  using null_or_unarrived_filter_leaves_range [where desc = null_bearing_filter
      and rf = "\<lparr>has_null = True, min_value = NumericDatum 4 1, max_value = NumericDatum 4 5\<rparr>"
      and ext = example_ext and T = TYPE_INT and gd = "\<lambda>sid. False" and slot = "int_col 1"
      and rng = "full_range ''c''" and st = "example_state [] []"
      and descs = "[null_bearing_filter, unarrived_filter]"]
    null_or_unarrived_filter_leaves_range [where desc = unarrived_filter
      and ext = example_ext and T = TYPE_INT and gd = "\<lambda>sid. False" and slot = "int_col 1"
      and rng = "full_range ''c''" and st = "example_state [] []" and descs = "[]"]
  by (simp add: null_bearing_filter_def unarrived_filter_def int_col_def example_state_def)

section \<open>Properties of the nested builders\<close>

lemma column_expr_step:
  assumes "r = build_column_expr_predicates_from opts es i st" and "i < length es"
  shows "(\<exists>st1. r = build_column_expr_predicates_from opts es (Suc i) st1 \<and>
            (normalized_exprs st1 = normalized_exprs st \<or>
             normalized_exprs st1 = (normalized_exprs st)[i := True])) \<or>
         normalized_exprs r = normalized_exprs st"
  using assms
  by (subst (asm) build_column_expr_predicates_from.simps)
     (auto simp: Let_def split: option.splits sum.splits if_splits)

lemma column_expr_from_flags:
  "length (normalized_exprs (build_column_expr_predicates_from opts es i st)) =
     length (normalized_exprs st) \<and>
   (\<forall>j. normalized_exprs st ! j \<longrightarrow>
      normalized_exprs (build_column_expr_predicates_from opts es i st) ! j)"
proof (induction "length es - i" arbitrary: i st)
  case 0
  then have "build_column_expr_predicates_from opts es i st = st"
    by (subst build_column_expr_predicates_from.simps) simp
  then show ?case by simp
next
  case (Suc n)
  then have i: "i < length es" and n: "n = length es - Suc i"
    by simp_all
  from column_expr_step [OF refl i, of opts st]
  show ?case
  proof (elim disjE exE conjE)
    fix st1
    assume r: "build_column_expr_predicates_from opts es i st =
                 build_column_expr_predicates_from opts es (Suc i) st1"
      and "normalized_exprs st1 = normalized_exprs st"
    then show ?thesis
      using Suc.hyps(1) [OF n, of st1] by simp
  next
    fix st1
    assume r: "build_column_expr_predicates_from opts es i st =
                 build_column_expr_predicates_from opts es (Suc i) st1"
      and "normalized_exprs st1 = (normalized_exprs st)[i := True]"
    then show ?thesis
      using Suc.hyps(1) [OF n, of st1] by (simp add: nth_update_True)
  next
    assume "normalized_exprs (build_column_expr_predicates_from opts es i st) =
              normalized_exprs st"
    then show ?thesis by simp
  qed
qed

lemma list_all_flags:
  "list_all (\<lambda>flag. flag) flags \<longleftrightarrow> (\<forall>j < length flags. flags ! j)"
  by (simp add: list_all_length)

lemma builder_recursion_invariant:
  fixes opts :: Options and ext :: "('r, 'k) External"
  shows "normalize_and_or_predicate opts ext e cbs = (r, cbs') \<Longrightarrow>
           (r = Inr True \<longrightarrow>
              (\<exists>child. cbs' = cbs @ [child] \<and> fully_normalized child \<and>
                 exprs child = build_raw_expr_containers (children e))) \<and>
           (r \<noteq> Inr True \<longrightarrow> cbs' = cbs)"
    and "parse_conjuncts opts ext b = (r, b') \<Longrightarrow>
           \<not> allow_partial_normalized b \<Longrightarrow>
           length (normalized_exprs (state b)) = length (exprs b) \<Longrightarrow>
           (\<forall>c \<in> set (child_builders b). fully_normalized c) \<Longrightarrow>
           exprs b' = exprs b \<and> (r = Inr True \<longrightarrow> fully_normalized b')"
    and "normalize_and_or_predicates_from opts ext i b = (r, b') \<Longrightarrow>
           length (normalized_exprs (state b)) = length (exprs b) \<Longrightarrow>
           exprs b' = exprs b \<and>
           builder_type b' = builder_type b \<and>
           allow_partial_normalized b' = allow_partial_normalized b \<and>
           length (normalized_exprs (state b')) = length (exprs b) \<and>
           ((\<forall>c \<in> set (child_builders b). fully_normalized c) \<longrightarrow>
            (\<forall>c \<in> set (child_builders b'). fully_normalized c)) \<and>
           (\<forall>j < i. normalized_exprs (state b') ! j = normalized_exprs (state b) ! j) \<and>
           (\<not> allow_partial_normalized b \<and> r = Inr True \<longrightarrow>
              (\<forall>j. i \<le> j \<and> j < length (exprs b) \<longrightarrow> normalized_exprs (state b') ! j))"
proof (induction opts ext e cbs and opts ext b and opts ext i b
    arbitrary: r cbs' and r b' and r b'
    rule: normalize_and_or_predicate_parse_conjuncts_normalize_and_or_predicates_from.induct)
  case (1 opts ext root_expr cbs)
  let ?child = "\<lambda>ty. new_builder (default_scan_keys ext) ty
                   (build_raw_expr_containers (children root_expr)) False"
  have fresh: "\<not> allow_partial_normalized (?child ty)"
    "length (normalized_exprs (state (?child ty))) = length (exprs (?child ty))"
    "\<forall>c \<in> set (child_builders (?child ty)). fully_normalized c"
    "exprs (?child ty) = build_raw_expr_containers (children root_expr)" for ty
    by (simp_all add: new_builder_def)
  show ?case
  proof (cases "op (node root_expr) = COMPOUND_OR")
    case True
    obtain r1 child where p: "parse_conjuncts opts ext (?child Type_OR) = (r1, child)"
      by (cases "parse_conjuncts opts ext (?child Type_OR)")
    from "1.IH"(1) [OF True p fresh(1,2,3)]
    have child: "exprs child = build_raw_expr_containers (children root_expr)"
      "r1 = Inr True \<longrightarrow> fully_normalized child"
      by (simp_all add: fresh(4))
    from "1.prems" True p have res:
      "(r, cbs') = (case r1 of Inl err \<Rightarrow> (Inl err, cbs)
          | Inr normalized \<Rightarrow> (Inr normalized, if normalized then cbs @ [child] else cbs))"
      by (subst (asm) normalize_and_or_predicate.simps) (simp split: sum.splits)
    then show ?thesis
      using child by (auto split: sum.splits if_splits)
  next
    case notor: False
    show ?thesis
    proof (cases "op (node root_expr) = COMPOUND_AND")
      case True
      obtain r1 child where p: "parse_conjuncts opts ext (?child Type_AND) = (r1, child)"
        by (cases "parse_conjuncts opts ext (?child Type_AND)")
      from "1.IH"(2) [OF notor True p fresh(1,2,3)]
      have child: "exprs child = build_raw_expr_containers (children root_expr)"
        "r1 = Inr True \<longrightarrow> fully_normalized child"
        by (simp_all add: fresh(4))
      from "1.prems" notor True p have res:
        "(r, cbs') = (case r1 of Inl err \<Rightarrow> (Inl err, cbs)
            | Inr normalized \<Rightarrow> (Inr normalized, if normalized then cbs @ [child] else cbs))"
        by (subst (asm) normalize_and_or_predicate.simps) (simp split: sum.splits)
      then show ?thesis
        using child by (auto split: sum.splits if_splits)
    next
      case False
      with notor "1.prems" have "r = Inr False" "cbs' = cbs"
        by (subst (asm) normalize_and_or_predicate.simps, simp)+
      then show ?thesis by simp
    qed
  qed
next
  case (2 opts ext ty es ap st cbs)
  from "2.prems"(2) have ap: "\<not> ap" by simp
  let ?st2 = "if enable_column_expr_predicate opts
              then build_column_expr_predicates opts es st else st"
  have len2: "length (normalized_exprs ?st2) = length es"
    using "2.prems"(3) column_expr_from_flags [of opts es 0 st]
    by (simp add: build_column_expr_predicates_def)
  from "2.prems"(1) ap have loop:
    "normalize_and_or_predicates_from opts ext 0 (Builder ty es ap ?st2 cbs) = (r, b')"
    by (subst (asm) parse_conjuncts.simps) simp
  have "(OK, st) = (if ap then partial_pass ext es st else (OK, st))" "\<not> OK \<noteq> OK"
    using ap by simp_all
  from "2.IH" [OF this loop] len2 "2.prems"(4)
  have inv: "exprs b' = es" "length (normalized_exprs (state b')) = length es"
    "\<forall>c \<in> set (child_builders b'). fully_normalized c"
    "r = Inr True \<longrightarrow> (\<forall>j. j < length es \<longrightarrow> normalized_exprs (state b') ! j)"
    using ap by simp_all
  show ?case
  proof (intro conjI impI)
    show "exprs b' = exprs (Builder ty es ap st cbs)"
      using inv(1) by simp
  next
    assume "r = Inr True"
    with inv show "fully_normalized b'"
      by (cases b') (simp add: list_all_flags)
  qed
next
  case (3 opts ext i ty es ap st cbs)
  let ?b = "Builder ty es ap st cbs"
  have len: "length (normalized_exprs st) = length es"
    using "3.prems"(2) by simp
  show ?case
  proof (cases "i < length es")
    case False
    with "3.prems"(1) have "r = Inr True" "b' = ?b"
      by (subst (asm) normalize_and_or_predicates_from.simps, simp)+
    with False len show ?thesis by auto
  next
    case i: True
    show ?thesis
    proof (cases "normalized_exprs st ! i")
      case True
      with i "3.prems"(1) have
        "normalize_and_or_predicates_from opts ext (Suc i) ?b = (r, b')"
        by (subst (asm) normalize_and_or_predicates_from.simps) simp
      from "3.IH"(1) [OF i True this "3.prems"(2)]
      have ih: "exprs b' = es" "builder_type b' = ty" "allow_partial_normalized b' = ap"
        "length (normalized_exprs (state b')) = length es"
        "(\<forall>c \<in> set cbs. fully_normalized c) \<longrightarrow>
           (\<forall>c \<in> set (child_builders b'). fully_normalized c)"
        "\<forall>j < Suc i. normalized_exprs (state b') ! j = normalized_exprs st ! j"
        "\<not> ap \<and> r = Inr True \<longrightarrow>
           (\<forall>j. Suc i \<le> j \<and> j < length es \<longrightarrow> normalized_exprs (state b') ! j)"
        by simp_all
      have at_i: "normalized_exprs (state b') ! i"
        using ih(6) True by simp
      have "\<not> ap \<and> r = Inr True \<longrightarrow>
           (\<forall>j. i \<le> j \<and> j < length es \<longrightarrow> normalized_exprs (state b') ! j)"
      proof (intro impI allI)
        fix j assume a: "\<not> ap \<and> r = Inr True" and j: "i \<le> j \<and> j < length es"
        show "normalized_exprs (state b') ! j"
        proof (cases "j = i")
          case True
          with at_i show ?thesis by simp
        next
          case False
          with j have "Suc i \<le> j \<and> j < length es" by simp
          with ih(7) a show ?thesis by blast
        qed
      qed
      with ih show ?thesis by simp
    next
      case unset: False
      obtain x cbs1 where n: "normalize_and_or_predicate opts ext (root (es ! i)) cbs = (x, cbs1)"
        by (cases "normalize_and_or_predicate opts ext (root (es ! i)) cbs")
      from "3.IH"(2) [OF i unset n]
      have nres: "x = Inr True \<longrightarrow> (\<exists>child. cbs1 = cbs @ [child] \<and> fully_normalized child)"
        "x \<noteq> Inr True \<longrightarrow> cbs1 = cbs"
        by auto
      have kids1: "(\<forall>c \<in> set cbs. fully_normalized c) \<longrightarrow>
          (\<forall>c \<in> set cbs1. fully_normalized c)"
        using nres by (cases "x = Inr True") auto
      show ?thesis
      proof (cases x)
        case (Inl err)
        with i unset n "3.prems"(1) have "r = Inl err" "b' = Builder ty es ap st cbs1"
          by (subst (asm) normalize_and_or_predicates_from.simps, simp)+
        with len kids1 show ?thesis by simp
      next
        case (Inr normalized)
        show ?thesis
        proof (cases "\<not> normalized \<and> \<not> ap")
          case True
          with Inr i unset n "3.prems"(1) have "r = Inr False" "b' = Builder ty es ap st cbs1"
            by (subst (asm) normalize_and_or_predicates_from.simps, simp)+
          with len kids1 show ?thesis by simp
        next
          case cont: False
          let ?st1 = "st\<lparr>normalized_exprs := (normalized_exprs st)[i := normalized]\<rparr>"
          from cont Inr i unset n "3.prems"(1) have rest:
            "normalize_and_or_predicates_from opts ext (Suc i) (Builder ty es ap ?st1 cbs1) = (r, b')"
            by (subst (asm) normalize_and_or_predicates_from.simps) (auto split: if_splits)
          have len1: "length (normalized_exprs (state (Builder ty es ap ?st1 cbs1))) =
                        length (exprs (Builder ty es ap ?st1 cbs1))"
            using len by simp
          from "3.IH"(3) [OF i unset n [symmetric] Inr cont rest len1]
          have ih: "exprs b' = es" "builder_type b' = ty" "allow_partial_normalized b' = ap"
            "length (normalized_exprs (state b')) = length es"
            "(\<forall>c \<in> set cbs1. fully_normalized c) \<longrightarrow>
               (\<forall>c \<in> set (child_builders b'). fully_normalized c)"
            "\<forall>j < Suc i. normalized_exprs (state b') ! j = (normalized_exprs st)[i := normalized] ! j"
            "\<not> ap \<and> r = Inr True \<longrightarrow>
               (\<forall>j. Suc i \<le> j \<and> j < length es \<longrightarrow> normalized_exprs (state b') ! j)"
            by simp_all
          have below: "\<forall>j < i. normalized_exprs (state b') ! j = normalized_exprs st ! j"
            using ih(6) by simp
          have at_i: "normalized_exprs (state b') ! i = normalized"
            using ih(6) i len by simp
          have "\<not> ap \<and> r = Inr True \<longrightarrow>
               (\<forall>j. i \<le> j \<and> j < length es \<longrightarrow> normalized_exprs (state b') ! j)"
          proof (intro impI allI)
            fix j assume a: "\<not> ap \<and> r = Inr True" and j: "i \<le> j \<and> j < length es"
            show "normalized_exprs (state b') ! j"
            proof (cases "j = i")
              case True
              with at_i cont a show ?thesis by simp
            next
              case False
              with j have "Suc i \<le> j \<and> j < length es" by simp
              with ih(7) a show ?thesis by blast
            qed
          qed
          with ih below kids1 show ?thesis by simp
        qed
      qed
    qed
  qed
qed

lemma normalize_and_or_predicate_result:
  "fst (normalize_and_or_predicate opts ext e cbs) =
     (if op (node e) = COMPOUND_OR
      then fst (parse_conjuncts opts ext
             (new_builder (default_scan_keys ext) Type_OR
                (build_raw_expr_containers (children e)) False))
      else if op (node e) = COMPOUND_AND
      then fst (parse_conjuncts opts ext
             (new_builder (default_scan_keys ext) Type_AND
                (build_raw_expr_containers (children e)) False))
      else Inr False)"
  by (subst normalize_and_or_predicate.simps) (auto split: prod.splits sum.splits)

lemma normalize_and_or_predicate_any_parent:
  "fst (normalize_and_or_predicate opts ext e cbs) =
   fst (normalize_and_or_predicate opts ext e cbs0)"
  by (simp add: normalize_and_or_predicate_result)

lemma loop_step:
  assumes "normalize_and_or_predicates_from opts ext k (Builder ty es ap st cbs) = (r, b')"
    and "k < length es"
  shows "(normalized_exprs st ! k \<and>
          normalize_and_or_predicates_from opts ext (Suc k) (Builder ty es ap st cbs) = (r, b')) \<or>
         (\<not> normalized_exprs st ! k \<and>
          (\<exists>x cbs1. normalize_and_or_predicate opts ext (root (es ! k)) cbs = (x, cbs1) \<and>
             ((x \<noteq> Inr True \<and> r = (case x of Inl e \<Rightarrow> Inl e | Inr _ \<Rightarrow> Inr False) \<and>
               b' = Builder ty es ap st cbs1) \<or>
              (\<exists>normalized. x = Inr normalized \<and> \<not> (\<not> normalized \<and> \<not> ap) \<and>
                 normalize_and_or_predicates_from opts ext (Suc k)
                   (Builder ty es ap
                      (st\<lparr>normalized_exprs := (normalized_exprs st)[k := normalized]\<rparr>) cbs1) =
                 (r, b')))))"
proof (cases "normalized_exprs st ! k")
  case True
  with assms show ?thesis
    by (subst (asm) normalize_and_or_predicates_from.simps) simp
next
  case False
  obtain x cbs1 where n: "normalize_and_or_predicate opts ext (root (es ! k)) cbs = (x, cbs1)"
    by (cases "normalize_and_or_predicate opts ext (root (es ! k)) cbs")
  from assms False n show ?thesis
    by (subst (asm) normalize_and_or_predicates_from.simps)
       (auto split: sum.splits if_splits)
qed

lemma failed_subtree_stays_unset:
  assumes fail: "fst (normalize_and_or_predicate opts ext (root (es ! i)) cbs0) \<noteq> Inr True"
    and i: "i < length es"
  shows "k \<le> i \<Longrightarrow> length (normalized_exprs st) = length es \<Longrightarrow>
         \<not> normalized_exprs st ! i \<Longrightarrow>
         normalize_and_or_predicates_from opts ext k (Builder ty es ap st cbs) = (r, b') \<Longrightarrow>
         \<not> normalized_exprs (state b') ! i \<and> length (normalized_exprs (state b')) = length es \<and>
         (\<not> ap \<longrightarrow> r \<noteq> Inr True)"
proof (induction "i - k" arbitrary: k st cbs)
  case 0
  then have k: "k = i" by simp
  from loop_step [OF "0.prems"(4)] i k "0.prems"(3)
  obtain x cbs1 where n: "normalize_and_or_predicate opts ext (root (es ! i)) cbs = (x, cbs1)"
    and alt: "(x \<noteq> Inr True \<and>
                r = (case x of Inl e \<Rightarrow> Inl e | Inr _ \<Rightarrow> Inr False) \<and>
                b' = Builder ty es ap st cbs1) \<or>
              (\<exists>normalized. x = Inr normalized \<and> \<not> (\<not> normalized \<and> \<not> ap) \<and>
                 normalize_and_or_predicates_from opts ext (Suc i)
                   (Builder ty es ap
                      (st\<lparr>normalized_exprs := (normalized_exprs st)[i := normalized]\<rparr>) cbs1) =
                 (r, b'))"
    by auto
  have x: "x \<noteq> Inr True"
    using fail n normalize_and_or_predicate_any_parent [of opts ext "root (es ! i)" cbs cbs0]
    by simp
  from alt show ?case
  proof (elim disjE conjE exE)
    assume "r = (case x of Inl e \<Rightarrow> Inl e | Inr _ \<Rightarrow> Inr False)" "b' = Builder ty es ap st cbs1"
    with "0.prems"(2,3) show ?thesis
      by (auto split: sum.splits)
  next
    fix normalized
    assume xn: "x = Inr normalized" and c: "\<not> (\<not> normalized \<and> \<not> ap)"
      and rest: "normalize_and_or_predicates_from opts ext (Suc i)
                   (Builder ty es ap
                      (st\<lparr>normalized_exprs := (normalized_exprs st)[i := normalized]\<rparr>) cbs1) =
                 (r, b')"
    from x xn have nf: "\<not> normalized" by simp
    with c have ap: ap by simp
    from builder_recursion_invariant(3) [OF rest] "0.prems"(2)
    have "length (normalized_exprs (state b')) = length es"
      "\<forall>j < Suc i. normalized_exprs (state b') ! j = (normalized_exprs st)[i := normalized] ! j"
      by simp_all
    with nf i "0.prems"(2) ap show ?thesis by simp
  qed
next
  case (Suc n)
  then have k: "k < i" and n: "n = i - Suc k" by simp_all
  with i have kl: "k < length es" by simp
  from loop_step [OF Suc.prems(4) kl]
  show ?case
  proof (elim disjE conjE exE)
    assume "normalize_and_or_predicates_from opts ext (Suc k) (Builder ty es ap st cbs) = (r, b')"
    from Suc.hyps(1) [OF n _ Suc.prems(2,3) this] k show ?thesis by simp
  next
    fix x cbs1
    assume "r = (case x of Inl e \<Rightarrow> Inl e | Inr _ \<Rightarrow> Inr False)" "b' = Builder ty es ap st cbs1"
      "x \<noteq> Inr True"
    with Suc.prems(2,3) show ?thesis
      by (auto split: sum.splits)
  next
    fix x cbs1 normalized
    assume rest: "normalize_and_or_predicates_from opts ext (Suc k)
                   (Builder ty es ap
                      (st\<lparr>normalized_exprs := (normalized_exprs st)[k := normalized]\<rparr>) cbs1) =
                 (r, b')"
    have "length (normalized_exprs (st\<lparr>normalized_exprs := (normalized_exprs st)[k := normalized]\<rparr>)) =
            length es"
      "\<not> normalized_exprs (st\<lparr>normalized_exprs := (normalized_exprs st)[k := normalized]\<rparr>) ! i"
      using Suc.prems(2,3) k by simp_all
    from Suc.hyps(1) [OF n _ this rest] k show ?thesis by simp
  qed
qed

lemma residual_keeps_unnormalized:
  assumes "\<not> is_pred_normalized flags i" "i < length ctxs"
  shows "ctxs ! i \<in> set (get_not_push_down_conjuncts flags ctxs [])"
  using assms
  by (auto simp: get_not_push_down_conjuncts_def not_push_down_from_eq)

lemmas builder_example_defs =
  three_branch_or_def two_branch_or_def compound_def one_slot_pred_def two_slot_pred_def
  binary_pred_def slot_ref_def const_expr_def leaf_node_def int_type_def example_opts_def
  example_ext_def new_builder_def build_raw_expr_containers_def build_column_expr_predicates_def

lemma three_branch_or_result:
  "normalize_and_or_predicate example_opts example_ext three_branch_or [] = (Inr False, [])"
  by (simp add: builder_example_defs normalize_and_or_predicate.simps parse_conjuncts.simps
      normalize_and_or_predicates_from.simps build_column_expr_predicates_from.simps Let_def)

lemma two_branch_or_result:
  "fst (normalize_and_or_predicate example_opts example_ext two_branch_or []) = Inr True"
  by (simp add: builder_example_defs normalize_and_or_predicate.simps parse_conjuncts.simps
      normalize_and_or_predicates_from.simps build_column_expr_predicates_from.simps Let_def)

lemma unnormalized_member_not_retained:
  assumes n: "normalize_and_or_predicate opts ext e cbs = (r, cbs')"
    and p: "parse_conjuncts opts ext
              (new_builder (default_scan_keys ext) ty
                 (build_raw_expr_containers (children e)) False) = (r1, child1)"
    and unset: "\<not> list_all (\<lambda>flag. flag) (normalized_exprs (state child1))"
    and ty: "ty = Type_OR \<and> op (node e) = COMPOUND_OR \<or>
             ty = Type_AND \<and> op (node e) = COMPOUND_AND"
  shows "r \<noteq> Inr True"
proof
  assume r: "r = Inr True"
  let ?child = "new_builder (default_scan_keys ext) ty
                 (build_raw_expr_containers (children e)) False"
  have fresh: "\<not> allow_partial_normalized ?child"
    "length (normalized_exprs (state ?child)) = length (exprs ?child)"
    "\<forall>c \<in> set (child_builders ?child). fully_normalized c"
    by (simp_all add: new_builder_def)
  have "fst (normalize_and_or_predicate opts ext e cbs) = r1"
    using ty p by (auto simp: normalize_and_or_predicate_result)
  with n r have "r1 = Inr True" by simp
  with builder_recursion_invariant(2) [OF p fresh] have "fully_normalized child1"
    by simp
  with unset show False
    by (cases child1) simp
qed

text \<open>
  Claim C1. Let \<^verbatim>\<open>_normalize_and_or_predicate\<close> run on a conjunct \<open>e\<close> of a parent. When it
  reports true, exactly one child builder over the members of \<open>e\<close> is retained and all of
  its members, at every depth, are normalized. Otherwise nothing is retained: the parent's
  child builders are unchanged. It does not report true when the child builder's own
  \<^verbatim>\<open>parse_conjuncts\<close> leaves any member's flag unset. And when it does not report true,
  the parent's loop leaves the flag of that conjunct unset, so that the conjunct is in the
  residual list, and a parent that does not allow partial normalization does not report
  true either.
\<close>

theorem or_subtree_all_or_nothing:
  fixes ctxs :: "'c list"
  assumes "normalize_and_or_predicate opts ext e cbs = (r, cbs')"
  shows "(r = Inr True \<longrightarrow>
            (\<exists>child. cbs' = cbs @ [child] \<and> fully_normalized child \<and>
               exprs child = build_raw_expr_containers (children e))) \<and>
         (r \<noteq> Inr True \<longrightarrow> cbs' = cbs) \<and>
         (parse_conjuncts opts ext
            (new_builder (default_scan_keys ext) ty
               (build_raw_expr_containers (children e)) False) = (r1, child1) \<and>
          \<not> list_all (\<lambda>flag. flag) (normalized_exprs (state child1)) \<and>
          (ty = Type_OR \<and> op (node e) = COMPOUND_OR \<or>
           ty = Type_AND \<and> op (node e) = COMPOUND_AND) \<longrightarrow> r \<noteq> Inr True) \<and>
         (r \<noteq> Inr True \<and> i < length es \<and> root (es ! i) = e \<and>
          length (normalized_exprs st) = length es \<and> \<not> normalized_exprs st ! i \<and>
          normalize_and_or_predicates_from opts ext 0 (Builder pty es ap st pcbs) = (r2, b2) \<and>
          length ctxs = length es \<longrightarrow>
            \<not> is_pred_normalized (normalized_exprs (state b2)) i \<and>
            (\<not> ap \<longrightarrow> r2 \<noteq> Inr True) \<and>
            ctxs ! i \<in> set (get_not_push_down_conjuncts (normalized_exprs (state b2)) ctxs []))"
proof (intro conjI)
  from builder_recursion_invariant(1) [OF assms]
  show "r = Inr True \<longrightarrow>
            (\<exists>child. cbs' = cbs @ [child] \<and> fully_normalized child \<and>
               exprs child = build_raw_expr_containers (children e))"
    and "r \<noteq> Inr True \<longrightarrow> cbs' = cbs"
    by simp_all
next
  show "parse_conjuncts opts ext
            (new_builder (default_scan_keys ext) ty
               (build_raw_expr_containers (children e)) False) = (r1, child1) \<and>
          \<not> list_all (\<lambda>flag. flag) (normalized_exprs (state child1)) \<and>
          (ty = Type_OR \<and> op (node e) = COMPOUND_OR \<or>
           ty = Type_AND \<and> op (node e) = COMPOUND_AND) \<longrightarrow> r \<noteq> Inr True"
    using unnormalized_member_not_retained [OF assms] by blast
next
  show "r \<noteq> Inr True \<and> i < length es \<and> root (es ! i) = e \<and>
          length (normalized_exprs st) = length es \<and> \<not> normalized_exprs st ! i \<and>
          normalize_and_or_predicates_from opts ext 0 (Builder pty es ap st pcbs) = (r2, b2) \<and>
          length ctxs = length es \<longrightarrow>
            \<not> is_pred_normalized (normalized_exprs (state b2)) i \<and>
            (\<not> ap \<longrightarrow> r2 \<noteq> Inr True) \<and>
            ctxs ! i \<in> set (get_not_push_down_conjuncts (normalized_exprs (state b2)) ctxs [])"
  proof (intro impI, elim conjE)
    assume r: "r \<noteq> Inr True" and i: "i < length es" and e: "root (es ! i) = e"
      and len: "length (normalized_exprs st) = length es"
      and unset: "\<not> normalized_exprs st ! i"
      and loop: "normalize_and_or_predicates_from opts ext 0 (Builder pty es ap st pcbs) = (r2, b2)"
      and ctxs: "length ctxs = length es"
    from assms r e have "fst (normalize_and_or_predicate opts ext (root (es ! i)) cbs) \<noteq> Inr True"
      by simp
    from failed_subtree_stays_unset [OF this i _ len unset loop]
    have res: "\<not> normalized_exprs (state b2) ! i" "\<not> ap \<longrightarrow> r2 \<noteq> Inr True"
      by simp_all
    then have nn: "\<not> is_pred_normalized (normalized_exprs (state b2)) i"
      by (simp add: is_pred_normalized_def)
    from i ctxs have "i < length ctxs" by simp
    from residual_keeps_unnormalized [OF nn this]
    have "ctxs ! i \<in> set (get_not_push_down_conjuncts (normalized_exprs (state b2)) ctxs [])" .
    with nn res show "\<not> is_pred_normalized (normalized_exprs (state b2)) i \<and>
            (\<not> ap \<longrightarrow> r2 \<noteq> Inr True) \<and>
            ctxs ! i \<in> set (get_not_push_down_conjuncts (normalized_exprs (state b2)) ctxs [])"
      by simp
  qed
qed

theorem or_subtree_all_or_nothing_witness:
  "normalize_and_or_predicate example_opts example_ext three_branch_or [] = (Inr False, []) \<and>
   \<not> is_pred_normalized
       (normalized_exprs (state (snd (normalize_and_or_predicates_from example_opts example_ext 0
          or_conjunct_root)))) 0 \<and>
   get_not_push_down_conjuncts
       (normalized_exprs (state (snd (normalize_and_or_predicates_from example_opts example_ext 0
          or_conjunct_root)))) [''c1 = 10 OR c2 = 20 OR c1 < c2''] [] =
     [''c1 = 10 OR c2 = 20 OR c1 < c2'']"
proof -
  let ?loop = "normalize_and_or_predicates_from example_opts example_ext 0 or_conjunct_root"
  have loop: "normalize_and_or_predicates_from example_opts example_ext 0
      (Builder Type_AND [ExprContextContainer (ExprContext three_branch_or)] True
         (example_state [False] []) []) = (fst ?loop, snd ?loop)"
    by (simp add: or_conjunct_root_def)
  have pre: "length [ExprContextContainer (ExprContext three_branch_or)] = 1"
    "root ([ExprContextContainer (ExprContext three_branch_or)] ! 0) = three_branch_or"
    "length (normalized_exprs (example_state [False] [])) =
       length [ExprContextContainer (ExprContext three_branch_or)]"
    "\<not> normalized_exprs (example_state [False] []) ! 0"
    by (simp_all add: example_state_def)
  from or_subtree_all_or_nothing [OF three_branch_or_result,
      where i = 0 and es = "[ExprContextContainer (ExprContext three_branch_or)]"
        and st = "example_state [False] []" and pty = Type_AND and ap = True and pcbs = "[]"
        and ?r2.0 = "fst ?loop" and ?b2.0 = "snd ?loop"
        and ctxs = "[''c1 = 10 OR c2 = 20 OR c1 < c2'']"]
  have unset: "\<not> is_pred_normalized (normalized_exprs (state (snd ?loop))) 0"
    using loop pre by simp
  then have "get_not_push_down_conjuncts (normalized_exprs (state (snd ?loop)))
      [''c1 = 10 OR c2 = 20 OR c1 < c2''] [] = [''c1 = 10 OR c2 = 20 OR c1 < c2'']"
    by (simp add: get_not_push_down_conjuncts_def not_push_down_from_eq)
  with unset three_branch_or_result show ?thesis
    by simp
qed

section \<open>Join runtime filters are never residual\<close>

lemma loop_keeps_flags:
  assumes j: "j < length es" 
  shows "length (normalized_exprs st) = length es \<Longrightarrow> normalized_exprs st ! j \<Longrightarrow>
         normalize_and_or_predicates_from opts ext k (Builder ty es ap st cbs) = (r, b') \<Longrightarrow>
         normalized_exprs (state b') ! j \<and> length (normalized_exprs (state b')) = length es"
proof (induction "length es - k" arbitrary: k st cbs)
  case 0
  then have "\<not> k < length es" by simp
  with "0.prems"(3) have "b' = Builder ty es ap st cbs"
    by (subst (asm) normalize_and_or_predicates_from.simps) simp
  with "0.prems"(1,2) show ?case by simp
next
  case (Suc n)
  then have k: "k < length es" and n: "n = length es - Suc k" by simp_all
  from loop_step [OF Suc.prems(3) k]
  show ?case
  proof (elim disjE conjE exE)
    assume "normalize_and_or_predicates_from opts ext (Suc k) (Builder ty es ap st cbs) = (r, b')"
    from Suc.hyps(1) [OF n Suc.prems(1,2) this] show ?thesis .
  next
    fix x cbs1
    assume "b' = Builder ty es ap st cbs1"
    with Suc.prems(1,2) show ?thesis by simp
  next
    fix x cbs1 normalized
    assume unset: "\<not> normalized_exprs st ! k"
      and rest: "normalize_and_or_predicates_from opts ext (Suc k)
                   (Builder ty es ap
                      (st\<lparr>normalized_exprs := (normalized_exprs st)[k := normalized]\<rparr>) cbs1) =
                 (r, b')"
    from unset Suc.prems(2) have "k \<noteq> j" by auto
    then have "length (normalized_exprs (st\<lparr>normalized_exprs := (normalized_exprs st)[k := normalized]\<rparr>)) =
            length es"
      "normalized_exprs (st\<lparr>normalized_exprs := (normalized_exprs st)[k := normalized]\<rparr>) ! j"
      using Suc.prems(1,2) by simp_all
    from Suc.hyps(1) [OF n this rest] show ?thesis .
  qed
qed

lemma later_steps_keep_flag:
  assumes "i < length es" and "length (normalized_exprs st2) = length es"
    and "normalized_exprs st2 ! i"
    and "normalize_and_or_predicates_from opts ext 0
           (Builder pty es ap
              (if enable_column_expr_predicate opts
               then build_column_expr_predicates opts es st2 else st2) cbs) = (r, b')"
  shows "is_pred_normalized (normalized_exprs (state b')) i"
proof -
  let ?st3 = "if enable_column_expr_predicate opts
               then build_column_expr_predicates opts es st2 else st2"
  have "length (normalized_exprs ?st3) = length es" "normalized_exprs ?st3 ! i"
    using assms(2,3) column_expr_from_flags [of opts es 0 st2]
    by (simp_all add: build_column_expr_predicates_def)
  from loop_keeps_flags [OF assms(1) this assms(4)] assms(1)
  show ?thesis
    by (simp add: is_pred_normalized_def)
qed

text \<open>
  Claim C7. For a conjunct list whose IN nodes have their child 0, and an IN-list
  conjunct \<open>i\<close> tagged as a join runtime filter on the slot: the loop body sets its flag
  whether or not its value set is usable, leaving the range as it was when the set is a
  NOT-IN, holds a null or exceeds the cap, and adding the values otherwise;
  \<^verbatim>\<open>normalize_join_runtime_filter\<close> returns with conjunct \<open>i\<close> normalized, so that it is
  not in the residual list computed from those flags; and the steps that follow in
  \<^verbatim>\<open>parse_conjuncts\<close>, the column expression predicates and the AND/OR loop, keep a set
  flag set.
\<close>

theorem join_runtime_filter_always_normalized:
  fixes ctxs :: "'c list"
  assumes "in_preds_have_child es" and "length (normalized_exprs st) = length es"
    and "i < length es" and "join_filter_on_slot slot (root (es ! i))"
  shows "(\<not> normalized_exprs st ! i \<longrightarrow>
            in_filter_step opts ext es slot i (rng, st) =
              Some (if value_set_unusable opts (root (es ! i)) then rng
                    else snd (add_fixed_values ext FILTER_IN (hash_set (node (root (es ! i)))) rng),
                    st\<lparr>normalized_exprs := (normalized_exprs st)[i := True]\<rparr>)) \<and>
         (\<exists>rng' st'.
            normalize_join_runtime_filter opts ext SlotType global_dict es slot (rng, st) =
              Some (rng', st') \<and>
            length (normalized_exprs st') = length es \<and>
            is_pred_normalized (normalized_exprs st') i \<and>
            (length ctxs = length es \<and> distinct ctxs \<longrightarrow>
               ctxs ! i \<notin> set (get_not_push_down_conjuncts (normalized_exprs st') ctxs []))) \<and>
         (length (normalized_exprs st2) = length es \<and> normalized_exprs st2 ! i \<and>
          normalize_and_or_predicates_from opts ext 0
            (Builder pty es ap
               (if enable_column_expr_predicate opts
                then build_column_expr_predicates opts es st2 else st2) cbs) = (r, b') \<longrightarrow>
            is_pred_normalized (normalized_exprs (state b')) i)"
proof (intro conjI impI)
  assume "\<not> normalized_exprs st ! i"
  from in_filter_step_match [OF assms(4) this]
  show "in_filter_step opts ext es slot i (rng, st) =
              Some (if value_set_unusable opts (root (es ! i)) then rng
                    else snd (add_fixed_values ext FILTER_IN (hash_set (node (root (es ! i)))) rng),
                    st\<lparr>normalized_exprs := (normalized_exprs st)[i := True]\<rparr>)" .
next
  from in_filters_from_defined [OF assms(1)] obtain rng1 st1 where
    loop: "in_filters_from opts ext es slot 0 (rng, st) = Some (rng1, st1)"
    by (metis surj_pair)
  obtain rng' st' where
    bloom: "bloom_filters ext SlotType global_dict slot (runtime_filters opts) (rng1, st1) = (rng', st')"
    by (metis surj_pair)
  have res: "normalize_join_runtime_filter opts ext SlotType global_dict es slot (rng, st) =
      Some (rng', st')"
    by (simp add: normalize_join_runtime_filter_def loop bloom)
  have same: "normalized_exprs st' = normalized_exprs st1"
    using bloom_filters_flags [of ext SlotType global_dict slot "runtime_filters opts" "(rng1, st1)"]
    by (simp add: bloom)
  have st1: "length (normalized_exprs st1) = length es" "normalized_exprs st1 ! i"
    using in_filters_from_flags [OF loop] assms(2,3,4) by simp_all
  with same have len: "length (normalized_exprs st') = length es"
    and norm: "is_pred_normalized (normalized_exprs st') i"
    using assms(3) by (simp_all add: is_pred_normalized_def)
  have "length ctxs = length es \<and> distinct ctxs \<longrightarrow>
          ctxs ! i \<notin> set (get_not_push_down_conjuncts (normalized_exprs st') ctxs [])"
  proof (intro impI, elim conjE)
    assume "length ctxs = length es" and d: "distinct ctxs"
    with assms(3) have "i < length ctxs" by simp
    from residual_skips_normalized [OF norm this d]
    show "ctxs ! i \<notin> set (get_not_push_down_conjuncts (normalized_exprs st') ctxs [])" .
  qed
  with res len norm show "\<exists>rng' st'.
            normalize_join_runtime_filter opts ext SlotType global_dict es slot (rng, st) =
              Some (rng', st') \<and>
            length (normalized_exprs st') = length es \<and>
            is_pred_normalized (normalized_exprs st') i \<and>
            (length ctxs = length es \<and> distinct ctxs \<longrightarrow>
               ctxs ! i \<notin> set (get_not_push_down_conjuncts (normalized_exprs st') ctxs []))"
    by blast
next
  assume "length (normalized_exprs st2) = length es \<and> normalized_exprs st2 ! i \<and>
          normalize_and_or_predicates_from opts ext 0
            (Builder pty es ap
               (if enable_column_expr_predicate opts
                then build_column_expr_predicates opts es st2 else st2) cbs) = (r, b')"
  then show "is_pred_normalized (normalized_exprs (state b')) i"
    using later_steps_keep_flag [OF assms(3)] by blast
qed

lemma not_in_join_filter_facts:
  "in_preds_have_child not_in_join_filter"
  "length (normalized_exprs (example_state [False] [])) = length not_in_join_filter"
  "0 < length not_in_join_filter"
  "join_filter_on_slot (int_col 1) (root (not_in_join_filter ! 0))"
  "value_set_unusable example_opts (root (not_in_join_filter ! 0))"
  by (simp_all add: not_in_join_filter_def in_preds_have_child_def example_state_def
      join_filter_on_slot_def join_in_filter_def slot_ref_def leaf_node_def int_col_def
      int_type_def value_set_unusable_def)

theorem join_runtime_filter_always_normalized_witness:
  "in_filter_step example_opts example_ext not_in_join_filter (int_col 1) 0
     (full_range ''c'', example_state [False] []) =
   Some (full_range ''c'', example_state [True] [])"
proof -
  have unset: "\<not> normalized_exprs (example_state [False] []) ! 0"
    by (simp add: example_state_def)
  have upd: "(example_state [False] [])\<lparr>normalized_exprs :=
      (normalized_exprs (example_state [False] []))[0 := True]\<rparr> = example_state [True] []"
    by (simp add: example_state_def)
  from join_runtime_filter_always_normalized [OF not_in_join_filter_facts(1,2,3,4),
      where opts = example_opts and ext = example_ext and rng = "full_range ''c''"]
  have "\<not> normalized_exprs (example_state [False] []) ! 0 \<longrightarrow>
        in_filter_step example_opts example_ext not_in_join_filter (int_col 1) 0
          (full_range ''c'', example_state [False] []) =
        Some (if value_set_unusable example_opts (root (not_in_join_filter ! 0))
              then full_range ''c''
              else snd (add_fixed_values example_ext FILTER_IN
                     (hash_set (node (root (not_in_join_filter ! 0)))) (full_range ''c'')),
              (example_state [False] [])\<lparr>normalized_exprs :=
                 (normalized_exprs (example_state [False] []))[0 := True]\<rparr>)"
    by (rule conjunct1)
  with unset show ?thesis
    by (simp add: not_in_join_filter_facts(5) upd)
qed

end
